theory Spec2Isabelle
  imports Main
begin

section \<open>Strings\<close>

text \<open>
  Python strings are modelled as \<open>string\<close>; a character stands for a code point
  below 256. \<open>str.strip()\<close> removes leading and trailing white space; below 256 the
  white-space code points of Python are 9 to 13, 28 to 32, 133 and 160.
\<close>

definition is_space :: "char \<Rightarrow> bool" where
  "is_space c = (of_char c \<in> {9, 10, 11, 12, 13, 28, 29, 30, 31, 32, 133, 160 :: nat})"

definition strip :: "string \<Rightarrow> string" where
  "strip s = rev (dropWhile is_space (rev (dropWhile is_space s)))"

text \<open>\<open>sep.join(parts)\<close>.\<close>

fun join :: "string \<Rightarrow> string list \<Rightarrow> string" where
  "join sep [] = []"
| "join sep [x] = x"
| "join sep (x # y # ys) = x @ sep @ join sep (y # ys)"

text \<open>\<open>"%s" % n\<close> for an integer: its decimal numeral.\<close>

definition digit_char :: "nat \<Rightarrow> char" where
  "digit_char d = ''0123456789'' ! d"

function str_nat :: "nat \<Rightarrow> string" where
  "str_nat n = (if n < 10 then [digit_char n] else str_nat (n div 10) @ [digit_char (n mod 10)])"
  by pat_completeness auto
termination
  by (relation "measure (\<lambda>n. n)") auto

definition str_int :: "int \<Rightarrow> string" where
  "str_int i = (if i < 0 then CHR ''-'' # str_nat (nat (- i)) else str_nat (nat i))"

section \<open>Link extraction\<close>

text \<open>
  Both patterns of the source have the shape \<open>literal ([class]+) literal\<close>:
  \<^verbatim>\<open>EVENT_ID_P = re.compile(r"onClick=\"showDetail\(([0-9]+)\)\"")\<close> and
  \<^verbatim>\<open>SPEAKER_ID_P = re.compile(r"onClick=\"showSpeaker\('([0-9-]+)'\);\"")\<close>.
  A pattern is the triple of its leading literal, the character class of its group and
  its trailing literal.
\<close>

record pattern =
  lead :: string
  group_class :: "char \<Rightarrow> bool"
  trail :: string

definition is_digit :: "char \<Rightarrow> bool" where
  "is_digit c = (48 \<le> (of_char c :: nat) \<and> (of_char c :: nat) \<le> 57)"

definition is_digit_or_hyphen :: "char \<Rightarrow> bool" where
  "is_digit_or_hyphen c = (is_digit c \<or> c = CHR ''-'')"

definition EVENT_ID_P :: pattern where
  \<open>EVENT_ID_P = \<lparr>lead = ''onClick="showDetail('', group_class = is_digit, trail = '')"''\<rparr>\<close>

definition SPEAKER_ID_P :: pattern where
  \<open>SPEAKER_ID_P =
     \<lparr>lead = ''onClick="showSpeaker('' @ [CHR 0x27], group_class = is_digit_or_hyphen,
      trail = CHR 0x27 # '');"''\<rparr>\<close>

text \<open>\<open>strip_prefix p s\<close> is what follows \<open>p\<close> at the start of \<open>s\<close>.\<close>

fun strip_prefix :: "string \<Rightarrow> string \<Rightarrow> string option" where
  "strip_prefix [] s = Some s"
| "strip_prefix (p # ps) [] = None"
| "strip_prefix (p # ps) (c # cs) = (if p = c then strip_prefix ps cs else None)"

text \<open>
  A match of the pattern at the start of \<open>s\<close>: the leading literal, the longest
  non-empty run of class characters (the group), the trailing literal. The result is the
  group and the text after the match. The greedy run never gives a character back: the
  trailing literal starts with a character outside the class.
\<close>

definition match_at :: "pattern \<Rightarrow> string \<Rightarrow> (string \<times> string) option" where
  "match_at P s =
     (case strip_prefix (lead P) s of
        None \<Rightarrow> None
      | Some r \<Rightarrow>
          (let g = takeWhile (group_class P) r in
           if g = [] then None
           else (case strip_prefix (trail P) (dropWhile (group_class P) r) of
                   None \<Rightarrow> None
                 | Some rest \<Rightarrow> Some (g, rest))))"

lemma strip_prefix_length: "strip_prefix p s = Some r \<Longrightarrow> length s = length p + length r"
  by (induction p s rule: strip_prefix.induct) (auto split: if_splits)

lemma match_at_shorter:
  assumes "match_at P (c # cs) = Some (g, rest)"
  shows "length rest < Suc (length cs)"
proof -
  from assms obtain r where r: "strip_prefix (lead P) (c # cs) = Some r"
    and g: "takeWhile (group_class P) r \<noteq> []"
    and rest: "strip_prefix (trail P) (dropWhile (group_class P) r) = Some rest"
    by (auto simp: match_at_def Let_def split: option.splits if_splits)
  have "length rest \<le> length (dropWhile (group_class P) r)"
    using strip_prefix_length [OF rest] by simp
  moreover have "length (dropWhile (group_class P) r) < length r"
    using g by (cases r) (auto simp: le_imp_less_Suc length_dropWhile_le split: if_splits)
  moreover have "length r \<le> length (c # cs)"
    using strip_prefix_length [OF r] by simp
  ultimately show ?thesis by simp
qed

text \<open>
  \<open>P.findall(s)\<close> for a pattern with one group: scan from the left; at a match, report
  its group and go on after the match; otherwise move one character on.
\<close>

function findall :: "pattern \<Rightarrow> string \<Rightarrow> string list" where
  "findall P [] = []"
| "findall P (c # cs) =
     (case match_at P (c # cs) of
        Some (g, rest) \<Rightarrow> g # findall P rest
      | None \<Rightarrow> findall P cs)"
  by pat_completeness auto
termination
  by (relation "measure (\<lambda>(P, s). length s)") (auto dest: match_at_shorter)

text \<open>
  The functions of the source keep their names without the leading underscore, which an
  Isabelle name cannot start with.
\<close>

definition index_event_ids :: "string \<Rightarrow> string list" where
  "index_event_ids s = findall EVENT_ID_P s"

definition speaker_ids :: "string \<Rightarrow> string list" where
  "speaker_ids s = findall SPEAKER_ID_P s"

section \<open>Fetch client\<close>

text \<open>
  The network is a function from the requested URL to the response that
  \<open>http_sess.get(url, timeout=30)\<close> returns: its status code, reason phrase and text.
  Exceptions of the transport itself (no response at all) are outside the model.
\<close>

record response =
  status_code :: int
  reason :: string
  resp_text :: string

datatype error = SystemExit string | AttributeError | ParserRejectedMarkup

definition fetch_error_message :: "string \<Rightarrow> response \<Rightarrow> string" where
  "fetch_error_message url resp =
     ''error reading '' @ [CHR 0x27] @ url @ [CHR 0x27] @ '': '' @ reason resp @ '' ('' @
     str_int (status_code resp) @ '')''"

definition http_get :: "(string \<Rightarrow> response) \<Rightarrow> string \<Rightarrow> error + string" where
  "http_get http_sess url =
     (let resp = http_sess url in
      if status_code resp \<noteq> 200 then Inl (SystemExit (fetch_error_message url resp))
      else Inr (strip (resp_text resp)))"

definition INDEX_URL :: string where
  "INDEX_URL = ''https://nips.cc/Conferences/2019/Schedule''"

definition event_url :: "string \<Rightarrow> string" where
  "event_url event_id = ''https://nips.cc/Conferences/2019/Schedule?showEvent='' @ event_id"

definition speaker_url :: "string \<Rightarrow> string" where
  "speaker_url speaker_id = ''https://nips.cc/Conferences/2019/Schedule?showSpeaker='' @ speaker_id"

section \<open>Page parser\<close>

text \<open>
  The tree that \<open>bs4.BeautifulSoup(html, "html.parser")\<close> builds: a tag has a name, the
  values of its \<open>class\<close> attribute and its children; a string is a piece of text; a
  comment is a string that \<open>.text\<close> leaves out. The soup is the list of the top-level
  nodes.
\<close>

datatype element =
  Tag string "string list" "element list"
| NavigableString string
| Comment string

type_synonym soup = "element list"

text \<open>
  \<open>bs4.BeautifulSoup(html, "html.parser")\<close> builds the tree, or raises
  \<open>ParserRejectedMarkup\<close> when the parser of the standard library fails on the text. How
  the tree is built from the text is not modelled: every function that starts from HTML
  takes the tree builder as its first argument \<open>parse\<close>, which gives the tree of a text
  or None for a text that the parser rejects.
\<close>

definition BeautifulSoup :: "(string \<Rightarrow> soup option) \<Rightarrow> string \<Rightarrow> error + soup" where
  "BeautifulSoup parse html =
     (case parse html of None \<Rightarrow> Inl ParserRejectedMarkup | Some soup \<Rightarrow> Inr soup)"

text \<open>A tag that a search has found, with the siblings that follow it.\<close>

type_synonym found = "element \<times> element list"

text \<open>
  The filter of \<open>find(name, class_=c)\<close> on one tag: the name is equal, and either no
  class is asked for, or the class asked for is one of the values of the attribute or is
  the whole attribute (its values joined by one space).
\<close>

fun tag_matches :: "string \<Rightarrow> string option \<Rightarrow> element \<Rightarrow> bool" where
  "tag_matches name None (Tag n cs kids) = (n = name)"
| "tag_matches name (Some c) (Tag n cs kids) = (n = name \<and> (c \<in> set cs \<or> c = join '' '' cs))"
| "tag_matches name c (NavigableString t) = False"
| "tag_matches name c (Comment t) = False"

text \<open>\<open>soup.find(name, class_=c)\<close>: the first matching tag in document order, or None.\<close>

fun soup_find :: "string \<Rightarrow> string option \<Rightarrow> element list \<Rightarrow> found option" where
  "soup_find name c [] = None"
| "soup_find name c (Tag n cs kids # es) =
     (if tag_matches name c (Tag n cs kids) then Some (Tag n cs kids, es)
      else (case soup_find name c kids of
              Some f \<Rightarrow> Some f
            | None \<Rightarrow> soup_find name c es))"
| "soup_find name c (NavigableString t # es) = soup_find name c es"
| "soup_find name c (Comment t # es) = soup_find name c es"

text \<open>\<open>tag.find_next_sibling(name)\<close>: the first later sibling that is a tag of that name.\<close>

fun next_sibling :: "string \<Rightarrow> element list \<Rightarrow> found option" where
  "next_sibling name [] = None"
| "next_sibling name (e # es) =
     (if tag_matches name None e then Some (e, es) else next_sibling name es)"

definition find_next_sibling :: "found \<Rightarrow> string \<Rightarrow> found option" where
  "find_next_sibling f name = next_sibling name (snd f)"

text \<open>\<open>tag.text\<close>: the strings below the tag, in document order, concatenated.\<close>

fun get_text :: "element \<Rightarrow> string" where
  "get_text (Tag n cs kids) = concat (map get_text kids)"
| "get_text (NavigableString t) = t"
| "get_text (Comment t) = []"

text \<open>
  \<open>x.text.strip()\<close> where \<open>x\<close> is the result of a search: the attribute access raises
  AttributeError on None.
\<close>

fun text_strip :: "found option \<Rightarrow> error + string" where
  "text_strip None = Inl AttributeError"
| "text_strip (Some f) = Inr (strip (get_text (fst f)))"

text \<open>\<open>not x\<close> for the result of a search: a tag is always true, None is false.\<close>

fun py_not :: "found option \<Rightarrow> bool" where
  "py_not None = True"
| "py_not (Some f) = False"

definition event_title :: "soup \<Rightarrow> error + string" where
  "event_title soup =
     (let title = soup_find ''div'' (Some ''maincardBody'') soup in
      if py_not title then Inr [] else text_strip title)"

definition event_abstract :: "soup \<Rightarrow> error + string" where
  "event_abstract soup =
     (let abstract = soup_find ''div'' (Some ''abstractContainer'') soup in
      if py_not abstract then Inr [] else text_strip abstract)"

definition event_type :: "soup \<Rightarrow> error + string" where
  "event_type soup =
     (let type = soup_find ''div'' (Some ''pull-right maincardHeader maincardType'') soup in
      if py_not type then Inr [] else text_strip type)"

definition speaker_name :: "soup \<Rightarrow> error + string" where
  "speaker_name soup =
     (let name = soup_find ''h3'' None soup in
      if py_not name then Inr [] else text_strip name)"

definition speaker_bio :: "soup \<Rightarrow> error + string" where
  "speaker_bio soup =
     (let name = soup_find ''h3'' None soup in
      if py_not name then Inr []
      else (case name of
              None \<Rightarrow> Inl AttributeError
            | Some f \<Rightarrow>
                (let bio = find_next_sibling f ''div'' in
                 if py_not bio then Inr [] else text_strip bio)))"

definition speaker_org :: "soup \<Rightarrow> error + string" where
  "speaker_org soup =
     (let org = soup_find ''h4'' None soup in
      if py_not org then Inr [] else text_strip org)"

section \<open>Documents\<close>

record document =
  url :: string
  type :: string
  title :: string
  description :: string
  subtype :: string
  org :: string
  content :: string

definition event_doc :: "(string \<Rightarrow> soup option) \<Rightarrow> string \<Rightarrow> string \<Rightarrow> error + document" where
  "event_doc parse the_url html =
     (case BeautifulSoup parse html of Inl e \<Rightarrow> Inl e | Inr soup \<Rightarrow>
      case event_type soup of Inl e \<Rightarrow> Inl e | Inr etype \<Rightarrow>
      case event_title soup of Inl e \<Rightarrow> Inl e | Inr etitle \<Rightarrow>
      case event_abstract soup of Inl e \<Rightarrow> Inl e | Inr abstract \<Rightarrow>
      (let text = join ''\<newline>'' [''event'', etype, etitle, abstract] in
       Inr \<lparr>url = the_url, type = ''event'', title = etitle, description = abstract,
            subtype = etype, org = [], content = text\<rparr>))"

definition speaker_doc :: "(string \<Rightarrow> soup option) \<Rightarrow> string \<Rightarrow> string \<Rightarrow> error + document" where
  "speaker_doc parse the_url html =
     (case BeautifulSoup parse html of Inl e \<Rightarrow> Inl e | Inr soup \<Rightarrow>
      case speaker_name soup of Inl e \<Rightarrow> Inl e | Inr name \<Rightarrow>
      case speaker_org soup of Inl e \<Rightarrow> Inl e | Inr affiliation \<Rightarrow>
      case speaker_bio soup of Inl e \<Rightarrow> Inl e | Inr bio \<Rightarrow>
      (let text = join ''\<newline>'' [''speaker'', name, affiliation, bio] in
       Inr \<lparr>url = the_url, type = ''speaker'', title = name, description = bio,
            subtype = [], org = affiliation, content = text\<rparr>))"

section \<open>Document store, cache and console\<close>

text \<open>
  The state a run works on. \<open>store\<close> is the content of the whoosh index in \<open>data\<close>:
  the committed documents, in the order of their commit. \<open>add_document\<close> appends and
  checks nothing: whoosh consults a \<open>unique\<close> field in \<open>update_document\<close> only, which the
  source never calls. \<open>cache\<close> is the content of the file \<open>cache/index\<close>, None when the
  file does not exist. \<open>out\<close> holds the lines written to the console. \<open>added\<close> records
  every document handed to \<open>add_document\<close>, committed or not; the program keeps no such
  list, it is there to state what a run has written.
\<close>

record world =
  store :: "document list"
  cache :: "string option"
  out :: "string list"
  added :: "document list"

record args =
  max_events :: "int option"

text \<open>\<open>set(ix.searcher().reader().field_terms("url"))\<close>: the URLs of the stored documents.\<close>

definition read_data_urls :: "document list \<Rightarrow> string set" where
  "read_data_urls ix = set (map url ix)"

text \<open>
  \<open>_get_index_html\<close>: the cached page when the cache file exists and is not empty,
  otherwise the fetched page, which is then written to the cache file.
\<close>

definition get_index_html :: "(string \<Rightarrow> response) \<Rightarrow> world \<Rightarrow> error \<times> world + string \<times> world" where
  "get_index_html http_sess w =
     (case cache w of
        Some (c # cs) \<Rightarrow> Inr (c # cs, w)
      | _ \<Rightarrow>
          (case http_get http_sess INDEX_URL of
             Inl e \<Rightarrow> Inl (e, w)
           | Inr html \<Rightarrow> Inr (html, w\<lparr>cache := Some html\<rparr>)))"

section \<open>Indexing one event\<close>

text \<open>
  The loop over the speakers of an event, inside the \<open>with data.writer() as writer\<close>
  block. \<open>writer\<close> is the list of the documents added to the open writer.
\<close>

fun add_speakers ::
  "(string \<Rightarrow> soup option) \<Rightarrow> (string \<Rightarrow> response) \<Rightarrow> string list \<Rightarrow> document list \<Rightarrow> world \<Rightarrow>
   error \<times> world + document list \<times> world" where
  "add_speakers parse http_sess [] writer w = Inr (writer, w)"
| "add_speakers parse http_sess (speaker_id # rest) writer w =
     (let w1 = w\<lparr>out := out w @ [''adding speaker '' @ speaker_id]\<rparr>;
          sp_url = speaker_url speaker_id in
      case http_get http_sess sp_url of
        Inl e \<Rightarrow> Inl (e, w1)
      | Inr speaker_html \<Rightarrow>
          (case speaker_doc parse sp_url speaker_html of
             Inl e \<Rightarrow> Inl (e, w1)
           | Inr d \<Rightarrow>
               add_speakers parse http_sess rest (writer @ [d]) (w1\<lparr>added := added w1 @ [d]\<rparr>)))"

text \<open>
  \<open>_index_event\<close>. The writer of whoosh is a context manager: leaving the \<open>with\<close> block
  normally commits the added documents, leaving it by an exception cancels the writer
  and drops them.
\<close>

definition index_event ::
  "(string \<Rightarrow> soup option) \<Rightarrow> (string \<Rightarrow> response) \<Rightarrow> string \<Rightarrow> world \<Rightarrow> error \<times> world + world" where
  "index_event parse http_sess ev_url w =
     (case http_get http_sess ev_url of
        Inl e \<Rightarrow> Inl (e, w)
      | Inr event_html \<Rightarrow>
          (case event_doc parse ev_url event_html of
             Inl e \<Rightarrow> Inl (e, w)
           | Inr d \<Rightarrow>
               (case add_speakers parse http_sess (speaker_ids event_html) [d]
                       (w\<lparr>added := added w @ [d]\<rparr>) of
                  Inl (e, w1) \<Rightarrow> Inl (e, w1)
                | Inr (writer, w1) \<Rightarrow> Inr (w1\<lparr>store := store w1 @ writer\<rparr>))))"

section \<open>Indexing orchestrator\<close>

text \<open>
  \<open>args.max_events and indexed >= args.max_events\<close>: None and 0 are false in Python, any
  other integer is true.
\<close>

fun max_reached :: "int option \<Rightarrow> int \<Rightarrow> bool" where
  "max_reached None indexed = False"
| "max_reached (Some m) indexed = (m \<noteq> 0 \<and> indexed \<ge> m)"

fun show_max :: "int option \<Rightarrow> string" where
  "show_max None = ''None''"
| "show_max (Some m) = str_int m"

text \<open>The \<open>for event_id in pbar\<close> loop of \<open>_build_index\<close>.\<close>

fun index_loop ::
  "(string \<Rightarrow> soup option) \<Rightarrow> (string \<Rightarrow> response) \<Rightarrow> args \<Rightarrow> string set \<Rightarrow> int \<Rightarrow> string list \<Rightarrow>
   world \<Rightarrow> error \<times> world + world" where
  "index_loop parse http_sess a existing_urls indexed [] w = Inr w"
| "index_loop parse http_sess a existing_urls indexed (event_id # rest) w =
     (let ev_url = event_url event_id in
      if ev_url \<in> existing_urls then
        index_loop parse http_sess a existing_urls indexed rest
          (w\<lparr>out := out w @ [''event '' @ event_id @ '' exists, skipping'']\<rparr>)
      else
        (case index_event parse http_sess ev_url
                (w\<lparr>out := out w @ [''adding event '' @ event_id]\<rparr>) of
           Inl (e, w1) \<Rightarrow> Inl (e, w1)
         | Inr w1 \<Rightarrow>
             if max_reached (max_events a) (indexed + 1) then
               Inr (w1\<lparr>out := out w1 @
                      [''INFO: max events reached ('' @ show_max (max_events a) @ ''), stopping'']\<rparr>)
             else index_loop parse http_sess a existing_urls (indexed + 1) rest w1))"

definition build_index ::
  "(string \<Rightarrow> soup option) \<Rightarrow> (string \<Rightarrow> response) \<Rightarrow> args \<Rightarrow> world \<Rightarrow> error \<times> world + world" where
  "build_index parse http_sess a w =
     (case get_index_html http_sess w of
        Inl (e, w1) \<Rightarrow> Inl (e, w1)
      | Inr (index_html, w1) \<Rightarrow>
          (let existing_urls = read_data_urls (store w1);
               event_ids = index_event_ids index_html in
           index_loop parse http_sess a existing_urls 0 event_ids w1))"

section \<open>Concrete networks and pages\<close>

text \<open>
  A network given by a table of the pages it serves; every other URL answers 404. A tree
  builder given by a table from page text to the tree of that page; every other text has
  the empty tree. They supply the concrete inputs of the examples below.
\<close>

definition page_server :: "(string \<times> response) list \<Rightarrow> string \<Rightarrow> response" where
  "page_server pages u =
     (case map_of pages u of
        Some r \<Rightarrow> r
      | None \<Rightarrow> \<lparr>status_code = 404, reason = ''Not Found'', resp_text = []\<rparr>)"

definition page_table :: "(string \<times> soup) list \<Rightarrow> string \<Rightarrow> soup" where
  "page_table trees html = (case map_of trees html of Some t \<Rightarrow> t | None \<Rightarrow> [])"

definition ok_page :: "string \<Rightarrow> response" where
  "ok_page body = \<lparr>status_code = 200, reason = ''OK'', resp_text = body\<rparr>"

definition talk_html :: string where
  \<open>talk_html = ''<div class="maincard"><div class="pull-right maincardHeader maincardType">Oral</div><div class="maincardBody">Talk X</div></div><div class="abstractContainer"> <p>About X</p> </div>''\<close>

definition talk_tree :: soup where
  "talk_tree =
     [Tag ''div'' [''maincard'']
        [Tag ''div'' [''pull-right'', ''maincardHeader'', ''maincardType''] [NavigableString ''Oral''],
         Tag ''div'' [''maincardBody''] [NavigableString ''Talk X'']],
      Tag ''div'' [''abstractContainer'']
        [NavigableString '' '', Tag ''p'' [] [NavigableString ''About X''], NavigableString '' '']]"

definition ann_html :: string where
  \<open>ann_html = ''<h3>Ann</h3><h4>MIT</h4><div>Bio</div>''\<close>

definition ann_tree :: soup where
  "ann_tree =
     [Tag ''h3'' [] [NavigableString ''Ann''], Tag ''h4'' [] [NavigableString ''MIT''],
      Tag ''div'' [] [NavigableString ''Bio'']]"

definition demo_index_html :: string where
  \<open>demo_index_html = ''<a onClick="showDetail(1)">A</a> <a onClick="showDetail(2)">B</a>''\<close>

definition event1_html :: string where
  \<open>event1_html = ''<div class="maincardBody">Talk X</div><a onClick="showSpeaker('5-1');">Ann</a>''\<close>

definition event2_html :: string where
  \<open>event2_html = ''<div class="maincardBody">Talk Y</div><a onClick="showSpeaker('5-1');">Ann</a>''\<close>

definition demo_parse :: "string \<Rightarrow> soup" where
  "demo_parse =
     page_table
       [(event1_html, [Tag ''div'' [''maincardBody''] [NavigableString ''Talk X''],
                       Tag ''a'' [] [NavigableString ''Ann'']]),
        (event2_html, [Tag ''div'' [''maincardBody''] [NavigableString ''Talk Y''],
                       Tag ''a'' [] [NavigableString ''Ann'']]),
        (ann_html, ann_tree)]"

definition first_event_server :: "string \<Rightarrow> response" where
  "first_event_server =
     page_server
       [(INDEX_URL, ok_page demo_index_html),
        (event_url ''1'', ok_page event1_html),
        (speaker_url ''5-1'', ok_page ann_html)]"

definition fresh_world :: world where
  "fresh_world = \<lparr>store = [], cache = None, out = [], added = []\<rparr>"

definition both_events_server :: "string \<Rightarrow> response" where
  "both_events_server =
     page_server
       [(INDEX_URL, ok_page demo_index_html),
        (event_url ''1'', ok_page event1_html),
        (event_url ''2'', ok_page event2_html),
        (speaker_url ''5-1'', ok_page ann_html)]"

definition no_speaker_server :: "string \<Rightarrow> response" where
  "no_speaker_server =
     page_server
       [(INDEX_URL, ok_page demo_index_html),
        (event_url ''1'', ok_page event1_html)]"

text \<open>The world at the end of a run and the error it ended with, if any.\<close>

definition final_world :: "error \<times> world + world \<Rightarrow> world" where
  "final_world r = (case r of Inl (e, w) \<Rightarrow> w | Inr w \<Rightarrow> w)"

definition run_error :: "error \<times> world + world \<Rightarrow> error option" where
  "run_error r = (case r of Inl (e, w) \<Rightarrow> Some e | Inr w \<Rightarrow> None)"

text \<open>
  Pages for the page parser, each with the tree that bs4 builds for it. The page of an
  event and the page of a speaker whose landmarks are nested, surrounded by white space
  and mixed with a comment and with tags of another kind; the page of an event and the
  page of a speaker without any landmark; and the text \<^verbatim>\<open><![]]>\<close>, on which the
  parser of the standard library fails in the marked section, so that bs4 raises
  ParserRejectedMarkup. A tree builder is given by a table of such entries; every other
  text has the empty tree.
\<close>

definition keynote_html :: string where
  \<open>keynote_html = ''<div class="maincard narrower"><div class="pull-right maincardHeader maincardType"> Invited Talk </div><span class="maincardBody">no</span><div class="maincardBody"> Deep <b>Learning</b> </div></div><div class="abstractContainer"><!--intro--><p>Part one.</p> <p>Part two.</p></div>''\<close>

definition keynote_tree :: soup where
  "keynote_tree =
     [Tag ''div'' [''maincard'', ''narrower'']
        [Tag ''div'' [''pull-right'', ''maincardHeader'', ''maincardType'']
           [NavigableString '' Invited Talk ''],
         Tag ''span'' [''maincardBody''] [NavigableString ''no''],
         Tag ''div'' [''maincardBody'']
           [NavigableString '' Deep '', Tag ''b'' [] [NavigableString ''Learning''],
            NavigableString '' '']],
      Tag ''div'' [''abstractContainer'']
        [Comment ''intro'', Tag ''p'' [] [NavigableString ''Part one.''], NavigableString '' '',
         Tag ''p'' [] [NavigableString ''Part two.'']]]"

definition lee_html :: string where
  \<open>lee_html = ''<div class="speaker"><h3> Ann <i>Lee</i></h3><h4>MIT\<newline></h4><p>since 2010</p><div><!--bio--> Works on <b>vision</b>. </div><div>other</div></div>''\<close>

definition lee_tree :: soup where
  "lee_tree =
     [Tag ''div'' [''speaker'']
        [Tag ''h3'' [] [NavigableString '' Ann '', Tag ''i'' [] [NavigableString ''Lee'']],
         Tag ''h4'' [] [NavigableString ''MIT\<newline>''],
         Tag ''p'' [] [NavigableString ''since 2010''],
         Tag ''div'' []
           [Comment ''bio'', NavigableString '' Works on '', Tag ''b'' [] [NavigableString ''vision''],
            NavigableString ''. ''],
         Tag ''div'' [] [NavigableString ''other'']]]"

definition plain_event_html :: string where
  \<open>plain_event_html = ''<p>To be announced</p><a onClick="showSpeaker('7-2');">speaker</a>''\<close>

definition plain_event_tree :: soup where
  "plain_event_tree =
     [Tag ''p'' [] [NavigableString ''To be announced''], Tag ''a'' [] [NavigableString ''speaker'']]"

definition plain_speaker_html :: string where
  \<open>plain_speaker_html = ''<p>No profile yet</p>''\<close>

definition plain_speaker_tree :: soup where
  "plain_speaker_tree = [Tag ''p'' [] [NavigableString ''No profile yet'']]"

definition rejected_html :: string where
  \<open>rejected_html = ''<![]]>''\<close>

definition markup_table :: "(string \<times> soup option) list \<Rightarrow> string \<Rightarrow> soup option" where
  "markup_table entries html = (case map_of entries html of Some r \<Rightarrow> r | None \<Rightarrow> Some [])"

definition markup_parse :: "string \<Rightarrow> soup option" where
  "markup_parse =
     markup_table
       [(keynote_html, Some keynote_tree),
        (lee_html, Some lee_tree),
        (plain_event_html, Some plain_event_tree),
        (plain_speaker_html, Some plain_speaker_tree),
        (rejected_html, None)]"

definition plain_server :: "string \<Rightarrow> response" where
  "plain_server =
     page_server
       [(event_url ''3'', ok_page plain_event_html),
        (speaker_url ''7-2'', ok_page plain_speaker_html)]"

definition rejected_server :: "string \<Rightarrow> response" where
  "rejected_server = page_server [(event_url ''4'', ok_page rejected_html)]"

section \<open>What the specification expects\<close>

text \<open>
  The definitions of this section follow the words of the specification, not the source;
  the theorems compare the source functions with them.

  The text of a landmark: the trimmed text of the tag when the search has found one, the
  empty string otherwise. The landmark of the bio is the first \<open>div\<close> sibling after the
  first \<open>h3\<close>.
\<close>

fun landmark_text :: "found option \<Rightarrow> string" where
  "landmark_text None = []"
| "landmark_text (Some f) = strip (get_text (fst f))"

definition bio_landmark :: "soup \<Rightarrow> found option" where
  "bio_landmark s =
     (case soup_find ''h3'' None s of None \<Rightarrow> None | Some f \<Rightarrow> find_next_sibling f ''div'')"

text \<open>
  A tree builder that accepts every text: it gives the text \<open>html\<close> the tree
  \<open>parse html\<close>.
\<close>

definition accepting :: "(string \<Rightarrow> soup) \<Rightarrow> string \<Rightarrow> soup option" where
  "accepting parse html = Some (parse html)"

text \<open>The document of an event page and of a speaker page, field by field.\<close>

definition event_record :: "(string \<Rightarrow> soup) \<Rightarrow> string \<Rightarrow> string \<Rightarrow> document" where
  "event_record parse u html =
     \<lparr>url = u, type = ''event'',
      title = landmark_text (soup_find ''div'' (Some ''maincardBody'') (parse html)),
      description = landmark_text (soup_find ''div'' (Some ''abstractContainer'') (parse html)),
      subtype = landmark_text (soup_find ''div'' (Some ''pull-right maincardHeader maincardType'') (parse html)),
      org = [],
      content = ''event'' @ ''\<newline>'' @
        landmark_text (soup_find ''div'' (Some ''pull-right maincardHeader maincardType'') (parse html)) @
        ''\<newline>'' @ landmark_text (soup_find ''div'' (Some ''maincardBody'') (parse html)) @
        ''\<newline>'' @ landmark_text (soup_find ''div'' (Some ''abstractContainer'') (parse html))\<rparr>"

definition speaker_record :: "(string \<Rightarrow> soup) \<Rightarrow> string \<Rightarrow> string \<Rightarrow> document" where
  "speaker_record parse u html =
     \<lparr>url = u, type = ''speaker'',
      title = landmark_text (soup_find ''h3'' None (parse html)),
      description = landmark_text (bio_landmark (parse html)),
      subtype = [],
      org = landmark_text (soup_find ''h4'' None (parse html)),
      content = ''speaker'' @ ''\<newline>'' @ landmark_text (soup_find ''h3'' None (parse html)) @
        ''\<newline>'' @ landmark_text (soup_find ''h4'' None (parse html)) @
        ''\<newline>'' @ landmark_text (bio_landmark (parse html))\<rparr>"


text \<open>A fetch succeeds when the status code is 200; it then yields the stripped text.\<close>

definition fetch_ok :: "(string \<Rightarrow> response) \<Rightarrow> string \<Rightarrow> bool" where
  "fetch_ok http_sess u = (status_code (http_sess u) = 200)"

definition fetched :: "(string \<Rightarrow> response) \<Rightarrow> string \<Rightarrow> string" where
  "fetched http_sess u = strip (resp_text (http_sess u))"

text \<open>
  The speakers that the page of an event names, the document of one speaker, and the
  documents of one event: the event document, then one document for each speaker ID.
\<close>

definition event_speakers :: "(string \<Rightarrow> response) \<Rightarrow> string \<Rightarrow> string list" where
  "event_speakers http_sess event_id = speaker_ids (fetched http_sess (event_url event_id))"

definition speaker_entry :: "(string \<Rightarrow> soup) \<Rightarrow> (string \<Rightarrow> response) \<Rightarrow> string \<Rightarrow> document" where
  "speaker_entry parse http_sess speaker_id =
     speaker_record parse (speaker_url speaker_id) (fetched http_sess (speaker_url speaker_id))"

definition event_entries :: "(string \<Rightarrow> soup) \<Rightarrow> (string \<Rightarrow> response) \<Rightarrow> string \<Rightarrow> document list" where
  "event_entries parse http_sess event_id =
     event_record parse (event_url event_id) (fetched http_sess (event_url event_id)) #
     map (speaker_entry parse http_sess) (event_speakers http_sess event_id)"

text \<open>All the fetches that indexing an event makes succeed.\<close>

definition speakers_ok :: "(string \<Rightarrow> response) \<Rightarrow> string list \<Rightarrow> bool" where
  "speakers_ok http_sess sids = list_all (\<lambda>sid. fetch_ok http_sess (speaker_url sid)) sids"

definition event_ok :: "(string \<Rightarrow> response) \<Rightarrow> string \<Rightarrow> bool" where
  "event_ok http_sess event_id =
     (fetch_ok http_sess (event_url event_id) \<and>
      speakers_ok http_sess (event_speakers http_sess event_id))"

text \<open>
  The event IDs whose canonical URL is not in the snapshot of the existing URLs, in the
  order of the index page, an ID as often as the page has it.
\<close>

definition new_ids :: "string set \<Rightarrow> string list \<Rightarrow> string list" where
  "new_ids existing_urls ids = filter (\<lambda>i. event_url i \<notin> existing_urls) ids"

text \<open>
  The new events that a loop with the cap \<open>m\<close> gets to when its counter stands at \<open>k\<close>:
  all of them without a cap or with the cap 0, otherwise the first \<open>max 1 (m - k)\<close>.
\<close>

fun cap_prefix :: "int option \<Rightarrow> int \<Rightarrow> 'a list \<Rightarrow> 'a list" where
  "cap_prefix None k xs = xs"
| "cap_prefix (Some m) k xs = (if m = 0 then xs else take (nat (max 1 (m - k))) xs)"

text \<open>
  The index page that a run works on, whether a run can obtain it, and the new events
  that the index page then yields for the store as it is at the start of the run.
\<close>

definition index_page :: "(string \<Rightarrow> response) \<Rightarrow> world \<Rightarrow> string" where
  "index_page http_sess w =
     (case cache w of Some (c # cs) \<Rightarrow> c # cs | _ \<Rightarrow> fetched http_sess INDEX_URL)"

definition index_available :: "(string \<Rightarrow> response) \<Rightarrow> world \<Rightarrow> bool" where
  "index_available http_sess w =
     (case cache w of Some (c # cs) \<Rightarrow> True | _ \<Rightarrow> fetch_ok http_sess INDEX_URL)"

definition pending :: "(string \<Rightarrow> response) \<Rightarrow> world \<Rightarrow> string list" where
  "pending http_sess w =
     new_ids (read_data_urls (store w)) (index_event_ids (index_page http_sess w))"

text \<open>
  The error of a failed fetch. For an event whose indexing fails: the URL whose fetch
  fails first, and the documents that have been added to the open writer by then.
\<close>

definition fetch_failure :: "(string \<Rightarrow> response) \<Rightarrow> string \<Rightarrow> error" where
  "fetch_failure http_sess u = SystemExit (fetch_error_message u (http_sess u))"

definition failing_url :: "(string \<Rightarrow> response) \<Rightarrow> string \<Rightarrow> string" where
  "failing_url http_sess event_id =
     (if \<not> fetch_ok http_sess (event_url event_id) then event_url event_id
      else (case dropWhile (\<lambda>sid. fetch_ok http_sess (speaker_url sid))
                   (event_speakers http_sess event_id) of
              [] \<Rightarrow> []
            | sid # rest \<Rightarrow> speaker_url sid))"

definition dropped_entries :: "(string \<Rightarrow> soup) \<Rightarrow> (string \<Rightarrow> response) \<Rightarrow> string \<Rightarrow> document list" where
  "dropped_entries parse http_sess event_id =
     (if \<not> fetch_ok http_sess (event_url event_id) then []
      else event_record parse (event_url event_id) (fetched http_sess (event_url event_id)) #
           map (speaker_entry parse http_sess)
             (takeWhile (\<lambda>sid. fetch_ok http_sess (speaker_url sid))
                (event_speakers http_sess event_id)))"

text \<open>The documents of a page without any landmark.\<close>

definition blank_event :: "string \<Rightarrow> document" where
  "blank_event u =
     \<lparr>url = u, type = ''event'', title = [], description = [], subtype = [], org = [],
      content = ''event\<newline>\<newline>\<newline>''\<rparr>"

definition blank_speaker :: "string \<Rightarrow> document" where
  "blank_speaker u =
     \<lparr>url = u, type = ''speaker'', title = [], description = [], subtype = [], org = [],
      content = ''speaker\<newline>\<newline>\<newline>''\<rparr>"

text \<open>
  A pattern whose matches cannot overlap and whose greedy group is forced: the leading
  literal starts with a character that is neither in the class nor in the trailing
  literal, the trailing literal starts outside the class, and no proper suffix of the
  leading literal is a prefix of it.
\<close>

definition separated :: "pattern \<Rightarrow> bool" where
  "separated P =
     (lead P \<noteq> [] \<and> trail P \<noteq> [] \<and>
      \<not> group_class P (hd (lead P)) \<and> \<not> group_class P (hd (trail P)) \<and>
      hd (lead P) \<notin> set (trail P) \<and>
      list_all (\<lambda>j. drop j (lead P) \<noteq> take (length (lead P) - j) (lead P))
        [1..<length (lead P)])"


text \<open>
  The nodes of a tree in document order, each with the siblings that follow it, and the
  siblings of a list of nodes, each with those that follow it.
\<close>

fun doc_order :: "element list \<Rightarrow> found list" where
  "doc_order [] = []"
| "doc_order (Tag n cs kids # es) = (Tag n cs kids, es) # doc_order kids @ doc_order es"
| "doc_order (NavigableString t # es) = (NavigableString t, es) # doc_order es"
| "doc_order (Comment t # es) = (Comment t, es) # doc_order es"

fun in_turn :: "element list \<Rightarrow> found list" where
  "in_turn [] = []"
| "in_turn (e # es) = (e, es) # in_turn es"

text \<open>
  A tag of a given kind: its name is the given name and, when a class is given, the class
  is one of the values of its \<open>class\<close> attribute or the whole attribute.
\<close>

definition of_kind :: "string \<Rightarrow> string option \<Rightarrow> found \<Rightarrow> bool" where
  "of_kind name c f =
     (case fst f of
        Tag n cs kids \<Rightarrow>
          n = name \<and>
          (case c of None \<Rightarrow> True | Some v \<Rightarrow> v \<in> set cs \<or> v = join '' '' cs)
      | NavigableString t \<Rightarrow> False
      | Comment t \<Rightarrow> False)"

text \<open>
  The structural landmark of a field: the first tag of the given kind in document order.
  The landmark of the bio is the first \<open>div\<close> among the siblings that follow the first
  \<open>h3\<close>.
\<close>

definition landmark :: "string \<Rightarrow> string option \<Rightarrow> soup \<Rightarrow> found option" where
  "landmark name c s = List.find (of_kind name c) (doc_order s)"

definition bio_block :: "soup \<Rightarrow> found option" where
  "bio_block s =
     (case landmark ''h3'' None s of
        None \<Rightarrow> None
      | Some f \<Rightarrow> List.find (of_kind ''div'' None) (in_turn (snd f)))"

text \<open>
  The text of a node: the strings at and below it, in document order, one after the other;
  a comment is not a string of the text.
\<close>

fun own_string :: "found \<Rightarrow> string" where
  "own_string (NavigableString t, es) = t"
| "own_string (Tag n cs kids, es) = []"
| "own_string (Comment t, es) = []"

definition text_below :: "element \<Rightarrow> string" where
  "text_below e = concat (map own_string (doc_order [e]))"

text \<open>
  \<open>trimmed t v\<close>: \<open>v\<close> is the text \<open>t\<close> without its leading and trailing white space. What
  is cut off at both ends is white space only, and what is left neither starts nor ends
  with white space.
\<close>

definition trimmed :: "string \<Rightarrow> string \<Rightarrow> bool" where
  "trimmed t v =
     ((\<exists>a b. t = a @ v @ b \<and> list_all is_space a \<and> list_all is_space b) \<and>
      (v \<noteq> [] \<longrightarrow> \<not> is_space (hd v) \<and> \<not> is_space (last v)))"

text \<open>
  The value of a field: the trimmed text of its landmark when the landmark is there, the
  empty string when it is not.
\<close>

fun field_text :: "found option \<Rightarrow> string" where
  "field_text None = []"
| "field_text (Some f) = strip (text_below (fst f))"

text \<open>The document that an event page and a speaker page with the tree \<open>s\<close> give.\<close>

definition event_page_doc :: "string \<Rightarrow> soup \<Rightarrow> document" where
  "event_page_doc u s =
     \<lparr>url = u, type = ''event'',
      title = field_text (landmark ''div'' (Some ''maincardBody'') s),
      description = field_text (landmark ''div'' (Some ''abstractContainer'') s),
      subtype = field_text (landmark ''div'' (Some ''pull-right maincardHeader maincardType'') s),
      org = [],
      content = ''event'' @ ''\<newline>'' @
        field_text (landmark ''div'' (Some ''pull-right maincardHeader maincardType'') s) @
        ''\<newline>'' @ field_text (landmark ''div'' (Some ''maincardBody'') s) @
        ''\<newline>'' @ field_text (landmark ''div'' (Some ''abstractContainer'') s)\<rparr>"

definition speaker_page_doc :: "string \<Rightarrow> soup \<Rightarrow> document" where
  "speaker_page_doc u s =
     \<lparr>url = u, type = ''speaker'',
      title = field_text (landmark ''h3'' None s),
      description = field_text (bio_block s),
      subtype = [],
      org = field_text (landmark ''h4'' None s),
      content = ''speaker'' @ ''\<newline>'' @ field_text (landmark ''h3'' None s) @
        ''\<newline>'' @ field_text (landmark ''h4'' None s) @
        ''\<newline>'' @ field_text (bio_block s)\<rparr>"

text \<open>A page without any landmark of an event, and without any landmark of a speaker.\<close>

definition bare_event :: "soup \<Rightarrow> bool" where
  "bare_event s =
     (landmark ''div'' (Some ''maincardBody'') s = None \<and>
      landmark ''div'' (Some ''abstractContainer'') s = None \<and>
      landmark ''div'' (Some ''pull-right maincardHeader maincardType'') s = None)"

definition bare_speaker :: "soup \<Rightarrow> bool" where
  "bare_speaker s = (landmark ''h3'' None s = None \<and> landmark ''h4'' None s = None)"

text \<open>
  The tree of a text that the builder accepts. A page is accepted when its fetch succeeds
  and the builder accepts its text; an event is accepted when its page and the pages of
  its speakers are. The documents of an accepted event: the document of its page, then
  the document of the page of each of its speakers.
\<close>

definition tree_of :: "(string \<Rightarrow> soup option) \<Rightarrow> string \<Rightarrow> soup" where
  "tree_of parse html = (case parse html of Some s \<Rightarrow> s | None \<Rightarrow> [])"

definition page_accepted :: "(string \<Rightarrow> soup option) \<Rightarrow> (string \<Rightarrow> response) \<Rightarrow> string \<Rightarrow> bool" where
  "page_accepted parse http_sess u = (fetch_ok http_sess u \<and> parse (fetched http_sess u) \<noteq> None)"

definition event_accepted :: "(string \<Rightarrow> soup option) \<Rightarrow> (string \<Rightarrow> response) \<Rightarrow> string \<Rightarrow> bool" where
  "event_accepted parse http_sess event_id =
     (page_accepted parse http_sess (event_url event_id) \<and>
      list_all (\<lambda>sid. page_accepted parse http_sess (speaker_url sid))
        (event_speakers http_sess event_id))"

definition speaker_page_entry :: "(string \<Rightarrow> soup option) \<Rightarrow> (string \<Rightarrow> response) \<Rightarrow> string \<Rightarrow> document" where
  "speaker_page_entry parse http_sess speaker_id =
     speaker_page_doc (speaker_url speaker_id)
       (tree_of parse (fetched http_sess (speaker_url speaker_id)))"

definition page_docs :: "(string \<Rightarrow> soup option) \<Rightarrow> (string \<Rightarrow> response) \<Rightarrow> string \<Rightarrow> document list" where
  "page_docs parse http_sess event_id =
     event_page_doc (event_url event_id) (tree_of parse (fetched http_sess (event_url event_id))) #
     map (speaker_page_entry parse http_sess) (event_speakers http_sess event_id)"

section \<open>Auxiliary facts\<close>

lemma strip_decomposition:
  "\<exists>a b. s = a @ strip s @ b \<and> list_all is_space a \<and> list_all is_space b"
proof -
  let ?d = "dropWhile is_space s"
  have "s = takeWhile is_space s @ ?d" by simp
  moreover have "?d = strip s @ rev (takeWhile is_space (rev ?d))"
    unfolding strip_def by (metis rev_append rev_rev_ident takeWhile_dropWhile_id)
  moreover have "list_all is_space (takeWhile is_space s)"
    by (simp add: list_all_iff) (meson set_takeWhileD)
  moreover have "list_all is_space (rev (takeWhile is_space (rev ?d)))"
    by (simp add: list_all_iff) (meson set_takeWhileD)
  ultimately show ?thesis by metis
qed

lemma strip_no_outer_space:
  "strip s \<noteq> [] \<Longrightarrow> \<not> is_space (hd (strip s)) \<and> \<not> is_space (last (strip s))"
proof -
  assume ne: "strip s \<noteq> []"
  let ?d = "dropWhile is_space s"
  let ?e = "dropWhile is_space (rev ?d)"
  have e: "?e \<noteq> []" using ne by (simp add: strip_def)
  then have last_ok: "\<not> is_space (hd ?e)" by (rule hd_dropWhile)
  have "?d \<noteq> []"
  proof
    assume "?d = []"
    with e show False by simp
  qed
  then have d_ok: "\<not> is_space (hd ?d)" by (rule hd_dropWhile)
  have "last (strip s) = hd ?e" using e by (simp add: strip_def last_rev)
  moreover have "hd (strip s) = hd ?d"
  proof -
    obtain b where "?d = strip s @ b"
      unfolding strip_def by (metis rev_append rev_rev_ident takeWhile_dropWhile_id)
    then show ?thesis using ne by (metis hd_append2)
  qed
  ultimately show ?thesis using last_ok d_ok by simp
qed

lemma event_title_eq: "event_title s = Inr (landmark_text (soup_find ''div'' (Some ''maincardBody'') s))"
  by (cases "soup_find ''div'' (Some ''maincardBody'') s") (simp_all add: event_title_def)

lemma event_abstract_eq:
  "event_abstract s = Inr (landmark_text (soup_find ''div'' (Some ''abstractContainer'') s))"
  by (cases "soup_find ''div'' (Some ''abstractContainer'') s") (simp_all add: event_abstract_def)

lemma event_type_eq:
  "event_type s = Inr (landmark_text (soup_find ''div'' (Some ''pull-right maincardHeader maincardType'') s))"
  by (cases "soup_find ''div'' (Some ''pull-right maincardHeader maincardType'') s")
     (simp_all add: event_type_def)

lemma speaker_name_eq: "speaker_name s = Inr (landmark_text (soup_find ''h3'' None s))"
  by (cases "soup_find ''h3'' None s") (simp_all add: speaker_name_def)

lemma speaker_org_eq: "speaker_org s = Inr (landmark_text (soup_find ''h4'' None s))"
  by (cases "soup_find ''h4'' None s") (simp_all add: speaker_org_def)

lemma speaker_bio_eq: "speaker_bio s = Inr (landmark_text (bio_landmark s))"
proof (cases "soup_find ''h3'' None s")
  case None
  then show ?thesis by (simp add: speaker_bio_def bio_landmark_def)
next
  case (Some f)
  then show ?thesis
    by (cases "find_next_sibling f ''div''") (simp_all add: speaker_bio_def bio_landmark_def)
qed

lemma event_doc_eq: "event_doc (accepting parse) u html = Inr (event_record parse u html)"
  by (simp add: event_doc_def BeautifulSoup_def accepting_def event_record_def event_title_eq event_abstract_eq
      event_type_eq)

lemma speaker_doc_eq: "speaker_doc (accepting parse) u html = Inr (speaker_record parse u html)"
  by (simp add: speaker_doc_def BeautifulSoup_def accepting_def speaker_record_def speaker_name_eq speaker_org_eq
      speaker_bio_eq)

lemma talk_landmarks:
  "landmark_text (soup_find ''div'' (Some ''maincardBody'') talk_tree) = ''Talk X''"
  "landmark_text (soup_find ''div'' (Some ''abstractContainer'') talk_tree) = ''About X''"
  "landmark_text (soup_find ''div'' (Some ''pull-right maincardHeader maincardType'') talk_tree) = ''Oral''"
  by (simp_all add: talk_tree_def strip_def is_space_def)

lemma http_get_ok: "fetch_ok http_sess u \<Longrightarrow> http_get http_sess u = Inr (fetched http_sess u)"
  by (simp add: http_get_def fetch_ok_def fetched_def)

lemma http_get_bad:
  "\<not> fetch_ok http_sess u \<Longrightarrow>
   http_get http_sess u = Inl (SystemExit (fetch_error_message u (http_sess u)))"
  by (simp add: http_get_def fetch_ok_def)

lemma add_speakers_ok:
  "speakers_ok http_sess sids \<Longrightarrow>
   add_speakers (accepting parse) http_sess sids writer w =
     Inr (writer @ map (speaker_entry parse http_sess) sids,
          w\<lparr>out := out w @ map (\<lambda>sid. ''adding speaker '' @ sid) sids,
            added := added w @ map (speaker_entry parse http_sess) sids\<rparr>)"
proof (induction sids arbitrary: writer w)
  case Nil
  then show ?case by simp
next
  case (Cons sid sids)
  then have ok: "fetch_ok http_sess (speaker_url sid)" and rest: "speakers_ok http_sess sids"
    by (simp_all add: speakers_ok_def)
  show ?case
    by (simp add: Let_def http_get_ok [OF ok] speaker_doc_eq Cons.IH [OF rest] speaker_entry_def)
qed

lemma index_event_ok:
  assumes "event_ok http_sess event_id"
  shows "index_event (accepting parse) http_sess (event_url event_id) w =
     Inr (w\<lparr>out := out w @ map (\<lambda>sid. ''adding speaker '' @ sid) (event_speakers http_sess event_id),
            added := added w @ event_entries parse http_sess event_id,
            store := store w @ event_entries parse http_sess event_id\<rparr>)"
proof -
  from assms have ok: "fetch_ok http_sess (event_url event_id)"
    and sp: "speakers_ok http_sess (speaker_ids (fetched http_sess (event_url event_id)))"
    by (simp_all add: event_ok_def event_speakers_def)
  show ?thesis
    by (simp add: index_event_def http_get_ok [OF ok] event_doc_eq add_speakers_ok [OF sp]
        event_entries_def event_speakers_def)
qed

lemma cap_prefix_Cons:
  "cap_prefix m k (x # xs) = x # (if max_reached m (k + 1) then [] else cap_prefix m (k + 1) xs)"
proof (cases m)
  case None
  then show ?thesis by simp
next
  case (Some c)
  show ?thesis
  proof (cases "c = 0")
    case True
    with Some show ?thesis by simp
  next
    case False
    have pos: "nat (max 1 (c - k)) = Suc (nat (max 1 (c - k) - 1))" by simp
    show ?thesis
    proof (cases "c \<le> k + 1")
      case True
      then have "max 1 (c - k) = 1" by simp
      with Some False True show ?thesis by simp
    next
      case le: False
      then have "nat (max 1 (c - k)) = Suc (nat (max 1 (c - (k + 1))))" by simp
      with Some False le show ?thesis by simp
    qed
  qed
qed

lemma index_loop_ok:
  "list_all (event_ok http_sess) (cap_prefix (max_events a) k (new_ids ex ids)) \<Longrightarrow>
   \<exists>w'. index_loop (accepting parse) http_sess a ex k ids w = Inr w' \<and>
        store w' = store w @
          concat (map (event_entries parse http_sess) (cap_prefix (max_events a) k (new_ids ex ids))) \<and>
        added w' = added w @
          concat (map (event_entries parse http_sess) (cap_prefix (max_events a) k (new_ids ex ids))) \<and>
        cache w' = cache w"
proof (induction ids arbitrary: k w)
  case Nil
  then show ?case by (cases "max_events a") (simp_all add: new_ids_def)
next
  case (Cons i ids)
  show ?case
  proof (cases "event_url i \<in> ex")
    case True
    then have n: "new_ids ex (i # ids) = new_ids ex ids" by (simp add: new_ids_def)
    from Cons.prems have "list_all (event_ok http_sess) (cap_prefix (max_events a) k (new_ids ex ids))"
      by (simp add: n)
    from Cons.IH [OF this, where w = "w\<lparr>out := out w @ [''event '' @ i @ '' exists, skipping'']\<rparr>"]
    obtain w' where
      "index_loop (accepting parse) http_sess a ex k ids
         (w\<lparr>out := out w @ [''event '' @ i @ '' exists, skipping'']\<rparr>) = Inr w'"
      "store w' = store w @
         concat (map (event_entries parse http_sess) (cap_prefix (max_events a) k (new_ids ex ids)))"
      "added w' = added w @
         concat (map (event_entries parse http_sess) (cap_prefix (max_events a) k (new_ids ex ids)))"
      "cache w' = cache w"
      by auto
    then show ?thesis using True by (simp add: n)
  next
    case False
    then have n: "new_ids ex (i # ids) = i # new_ids ex ids" by (simp add: new_ids_def)
    from Cons.prems have ok: "event_ok http_sess i"
      and rest: "\<not> max_reached (max_events a) (k + 1) \<Longrightarrow>
                 list_all (event_ok http_sess) (cap_prefix (max_events a) (k + 1) (new_ids ex ids))"
      by (simp_all add: n cap_prefix_Cons)
    show ?thesis
    proof (cases "max_reached (max_events a) (k + 1)")
      case True
      then show ?thesis using False
        by (simp add: n cap_prefix_Cons index_event_ok [OF ok] del: cap_prefix.simps)
    next
      case nr: False
      let ?w1 = "w\<lparr>out := out w @ [''adding event '' @ i] @
                     map (\<lambda>sid. ''adding speaker '' @ sid) (event_speakers http_sess i),
                   added := added w @ event_entries parse http_sess i,
                   store := store w @ event_entries parse http_sess i\<rparr>"
      from Cons.IH [OF rest [OF nr], where w = ?w1]
      obtain w' where
        "index_loop (accepting parse) http_sess a ex (k + 1) ids ?w1 = Inr w'"
        "store w' = store ?w1 @
           concat (map (event_entries parse http_sess)
             (cap_prefix (max_events a) (k + 1) (new_ids ex ids)))"
        "added w' = added ?w1 @
           concat (map (event_entries parse http_sess)
             (cap_prefix (max_events a) (k + 1) (new_ids ex ids)))"
        "cache w' = cache ?w1"
        by auto
      then show ?thesis using False nr
        by (simp add: n cap_prefix_Cons index_event_ok [OF ok] del: cap_prefix.simps)
    qed
  qed
qed

lemma get_index_html_ok:
  "index_available http_sess w \<Longrightarrow>
   \<exists>w1. get_index_html http_sess w = Inr (index_page http_sess w, w1) \<and>
        store w1 = store w \<and> added w1 = added w \<and> out w1 = out w \<and>
        cache w1 = Some (index_page http_sess w)"
  by (auto simp: get_index_html_def index_available_def index_page_def http_get_ok
           split: option.splits list.splits)

lemma get_index_html_bad:
  "\<not> index_available http_sess w \<Longrightarrow>
   get_index_html http_sess w =
     Inl (SystemExit (fetch_error_message INDEX_URL (http_sess INDEX_URL)), w)"
  by (auto simp: get_index_html_def index_available_def http_get_bad
           split: option.splits list.splits)

lemma build_index_loop:
  assumes "index_available http_sess w"
  shows "\<exists>w1. build_index (accepting parse) http_sess a w =
           index_loop (accepting parse) http_sess a (read_data_urls (store w)) 0
             (index_event_ids (index_page http_sess w)) w1 \<and>
         store w1 = store w \<and> added w1 = added w \<and> out w1 = out w \<and>
         cache w1 = Some (index_page http_sess w)"
proof -
  from get_index_html_ok [OF assms] obtain w1 where
    g: "get_index_html http_sess w = Inr (index_page http_sess w, w1)"
    and s: "store w1 = store w" "added w1 = added w" "out w1 = out w"
      "cache w1 = Some (index_page http_sess w)"
    by blast
  show ?thesis using s by (intro exI [of _ w1]) (simp add: build_index_def g)
qed

lemma build_index_ok:
  assumes av: "index_available http_sess w"
    and ok: "list_all (event_ok http_sess) (cap_prefix (max_events a) 0 (pending http_sess w))"
  shows "\<exists>w'. build_index (accepting parse) http_sess a w = Inr w' \<and>
          store w' = store w @ concat (map (event_entries parse http_sess)
                       (cap_prefix (max_events a) 0 (pending http_sess w))) \<and>
          added w' = added w @ concat (map (event_entries parse http_sess)
                       (cap_prefix (max_events a) 0 (pending http_sess w))) \<and>
          cache w' = Some (index_page http_sess w)"
proof -
  from build_index_loop [OF av] obtain w1 where
    b: "build_index (accepting parse) http_sess a w =
          index_loop (accepting parse) http_sess a (read_data_urls (store w)) 0
            (index_event_ids (index_page http_sess w)) w1"
    and s: "store w1 = store w" "added w1 = added w"
      "cache w1 = Some (index_page http_sess w)"
    by blast
  from index_loop_ok [of http_sess a 0 "read_data_urls (store w)"
      "index_event_ids (index_page http_sess w)" parse w1] ok
  show ?thesis by (simp add: b s pending_def)
qed


lemma strip_demo [simp]:
  "strip demo_index_html = demo_index_html" "strip event1_html = event1_html"
  "strip event2_html = event2_html" "strip ann_html = ann_html"
  by (simp_all add: demo_index_html_def event1_html_def event2_html_def ann_html_def
      strip_def is_space_def)

lemma demo_ids [simp]:
  "index_event_ids demo_index_html = [''1'', ''2'']"
  "speaker_ids event1_html = [''5-1'']"
  "speaker_ids event2_html = [''5-1'']"
  by (simp_all add: demo_index_html_def event1_html_def event2_html_def index_event_ids_def
      speaker_ids_def EVENT_ID_P_def SPEAKER_ID_P_def match_at_def is_digit_def
      is_digit_or_hyphen_def)

lemma first_event_server_pages [simp]:
  "first_event_server INDEX_URL = ok_page demo_index_html"
  "first_event_server (event_url ''1'') = ok_page event1_html"
  "first_event_server (speaker_url ''5-1'') = ok_page ann_html"
  "status_code (first_event_server (event_url ''2'')) = 404"
  by (simp_all add: first_event_server_def page_server_def INDEX_URL_def event_url_def
      speaker_url_def)

lemma add_speakers_bad:
  "\<not> speakers_ok http_sess sids \<Longrightarrow>
   \<exists>w'. add_speakers (accepting parse) http_sess sids writer w =
          Inl (fetch_failure http_sess
                 (case dropWhile (\<lambda>sid. fetch_ok http_sess (speaker_url sid)) sids of
                    [] \<Rightarrow> [] | sid # rest \<Rightarrow> speaker_url sid), w') \<and>
        store w' = store w \<and> cache w' = cache w \<and>
        added w' = added w @ map (speaker_entry parse http_sess)
                     (takeWhile (\<lambda>sid. fetch_ok http_sess (speaker_url sid)) sids)"
proof (induction sids arbitrary: writer w)
  case Nil
  then show ?case by (simp add: speakers_ok_def)
next
  case (Cons sid sids)
  show ?case
  proof (cases "fetch_ok http_sess (speaker_url sid)")
    case True
    with Cons.prems have "\<not> speakers_ok http_sess sids" by (simp add: speakers_ok_def)
    from Cons.IH [OF this, where writer = "writer @ [speaker_entry parse http_sess sid]"
        and w = "w\<lparr>out := out w @ [''adding speaker '' @ sid],
                   added := added w @ [speaker_entry parse http_sess sid]\<rparr>"]
    show ?thesis using True
      by (simp add: Let_def http_get_ok speaker_doc_eq speaker_entry_def)
  next
    case False
    then show ?thesis
      by (simp add: Let_def http_get_bad fetch_failure_def)
  qed
qed

lemma index_event_bad:
  assumes "\<not> event_ok http_sess event_id"
  shows "\<exists>w'. index_event (accepting parse) http_sess (event_url event_id) w =
           Inl (fetch_failure http_sess (failing_url http_sess event_id), w') \<and>
         store w' = store w \<and> cache w' = cache w \<and>
         added w' = added w @ dropped_entries parse http_sess event_id"
proof (cases "fetch_ok http_sess (event_url event_id)")
  case False
  then show ?thesis
    by (simp add: index_event_def http_get_bad failing_url_def dropped_entries_def
        fetch_failure_def)
next
  case True
  with assms have "\<not> speakers_ok http_sess (speaker_ids (fetched http_sess (event_url event_id)))"
    by (simp add: event_ok_def event_speakers_def)
  from add_speakers_bad [OF this, of parse
      "[event_record parse (event_url event_id) (fetched http_sess (event_url event_id))]"
      "w\<lparr>added := added w @
         [event_record parse (event_url event_id) (fetched http_sess (event_url event_id))]\<rparr>"]
  show ?thesis using True
    by (auto simp: index_event_def http_get_ok event_doc_eq failing_url_def
        dropped_entries_def event_speakers_def)
qed

lemma index_loop_bad:
  "cap_prefix (max_events a) k (new_ids ex ids) = pre @ bad # post \<Longrightarrow>
   list_all (event_ok http_sess) pre \<Longrightarrow> \<not> event_ok http_sess bad \<Longrightarrow>
   \<exists>w'. index_loop (accepting parse) http_sess a ex k ids w =
          Inl (fetch_failure http_sess (failing_url http_sess bad), w') \<and>
        store w' = store w @ concat (map (event_entries parse http_sess) pre) \<and>
        added w' = added w @ concat (map (event_entries parse http_sess) pre) @
                   dropped_entries parse http_sess bad \<and>
        cache w' = cache w"
proof (induction ids arbitrary: k w pre)
  case Nil
  then show ?case by (cases "max_events a") (auto simp: new_ids_def split: if_splits)
next
  case (Cons i ids)
  show ?case
  proof (cases "event_url i \<in> ex")
    case True
    then have n: "new_ids ex (i # ids) = new_ids ex ids" by (simp add: new_ids_def)
    from Cons.IH [OF Cons.prems(1) [unfolded n] Cons.prems(2,3),
        where w = "w\<lparr>out := out w @ [''event '' @ i @ '' exists, skipping'']\<rparr>"]
    show ?thesis using True by simp
  next
    case False
    then have n: "new_ids ex (i # ids) = i # new_ids ex ids" by (simp add: new_ids_def)
    from Cons.prems(1) have c:
      "i # (if max_reached (max_events a) (k + 1) then []
            else cap_prefix (max_events a) (k + 1) (new_ids ex ids)) = pre @ bad # post"
      by (simp add: n cap_prefix_Cons del: cap_prefix.simps)
    show ?thesis
    proof (cases pre)
      case Nil
      with c have "bad = i" by simp
      with Cons.prems(3) have "\<not> event_ok http_sess i" by simp
      from index_event_bad [OF this, of parse "w\<lparr>out := out w @ [''adding event '' @ i]\<rparr>"]
      show ?thesis using False Nil \<open>bad = i\<close> by auto
    next
      case (Cons p pre')
      with c have pi: "p = i"
        and r: "(if max_reached (max_events a) (k + 1) then []
                 else cap_prefix (max_events a) (k + 1) (new_ids ex ids)) = pre' @ bad # post"
        by simp_all
      from r have nr: "\<not> max_reached (max_events a) (k + 1)"
        and r': "cap_prefix (max_events a) (k + 1) (new_ids ex ids) = pre' @ bad # post"
        by (auto split: if_splits)
      from Cons.prems(2) Cons pi have ok: "event_ok http_sess i"
        and okr: "list_all (event_ok http_sess) pre'" by simp_all
      let ?w1 = "w\<lparr>out := out w @ [''adding event '' @ i] @
                     map (\<lambda>sid. ''adding speaker '' @ sid) (event_speakers http_sess i),
                   added := added w @ event_entries parse http_sess i,
                   store := store w @ event_entries parse http_sess i\<rparr>"
      from Cons.IH [OF r' okr Cons.prems(3), where w = ?w1]
      show ?thesis using False nr Cons pi
        by (auto simp: index_event_ok [OF ok])
    qed
  qed
qed

lemma get_index_html_exact:
  "index_available http_sess w \<Longrightarrow>
   get_index_html http_sess w =
     Inr (index_page http_sess w, w\<lparr>cache := Some (index_page http_sess w)\<rparr>)"
  by (cases w)
     (auto simp: get_index_html_def index_available_def index_page_def http_get_ok
        split: option.splits list.splits)

lemma build_index_unfold:
  "build_index (accepting parse) http_sess a w =
     (if index_available http_sess w
      then index_loop (accepting parse) http_sess a (read_data_urls (store w)) 0
             (index_event_ids (index_page http_sess w))
             (w\<lparr>cache := Some (index_page http_sess w)\<rparr>)
      else Inl (fetch_failure http_sess INDEX_URL, w))"
  by (simp add: build_index_def get_index_html_exact get_index_html_bad fetch_failure_def)

lemma first_bad_split:
  "\<not> list_all P xs \<Longrightarrow> \<exists>pre bad post. xs = pre @ bad # post \<and> list_all P pre \<and> \<not> P bad"
proof -
  assume "\<not> list_all P xs"
  then have ne: "dropWhile P xs \<noteq> []" by (simp add: list_all_iff)
  then obtain bad post where d: "dropWhile P xs = bad # post" by (cases "dropWhile P xs") auto
  then have "\<not> P bad" using hd_dropWhile [OF ne] by simp
  moreover have "xs = takeWhile P xs @ bad # post" using d by (metis takeWhile_dropWhile_id)
  moreover have "list_all P (takeWhile P xs)" by (simp add: list_all_iff) (meson set_takeWhileD)
  ultimately show ?thesis by blast
qed

lemma index_loop_Inr_all_ok:
  assumes "index_loop (accepting parse) http_sess a ex k ids w = Inr w'"
  shows "list_all (event_ok http_sess) (cap_prefix (max_events a) k (new_ids ex ids))"
proof (rule ccontr)
  assume "\<not> ?thesis"
  from first_bad_split [OF this] obtain pre bad post where
    "cap_prefix (max_events a) k (new_ids ex ids) = pre @ bad # post"
    "list_all (event_ok http_sess) pre" "\<not> event_ok http_sess bad"
    by blast
  from index_loop_bad [OF this, of parse w] assms show False by auto
qed

lemma index_loop_all_skipped:
  "\<forall>i \<in> set ids. event_url i \<in> ex \<Longrightarrow>
   index_loop (accepting parse) http_sess a ex k ids w =
     Inr (w\<lparr>out := out w @ map (\<lambda>i. ''event '' @ i @ '' exists, skipping'') ids\<rparr>)"
  by (induction ids arbitrary: w) simp_all

lemma event_url_stored:
  "i \<in> set xs \<Longrightarrow>
   event_url i \<in> url ` set (concat (map (event_entries parse http_sess) xs))"
  by (induction xs) (auto simp: event_entries_def event_record_def)

lemma failing_url_not_ok:
  "\<not> event_ok http_sess i \<Longrightarrow> \<not> fetch_ok http_sess (failing_url http_sess i)"
proof (cases "fetch_ok http_sess (event_url i)")
  case False
  then show ?thesis by (simp add: failing_url_def)
next
  case True
  assume "\<not> event_ok http_sess i"
  with True have "\<not> list_all (\<lambda>sid. fetch_ok http_sess (speaker_url sid)) (event_speakers http_sess i)"
    by (simp add: event_ok_def speakers_ok_def)
  then have ne: "dropWhile (\<lambda>sid. fetch_ok http_sess (speaker_url sid)) (event_speakers http_sess i) \<noteq> []"
    by (simp add: list_all_iff)
  from hd_dropWhile [OF ne] ne True show ?thesis
    by (cases "dropWhile (\<lambda>sid. fetch_ok http_sess (speaker_url sid)) (event_speakers http_sess i)")
       (simp_all add: failing_url_def)
qed

lemma index_page_cached:
  "cache w = Some h \<Longrightarrow> h \<noteq> [] \<Longrightarrow> index_page http_sess w = h \<and> index_available http_sess w"
  by (cases h) (simp_all add: index_page_def index_available_def)

lemma demo_index_nonempty [simp]: "demo_index_html \<noteq> []"
  by (simp add: demo_index_html_def)

lemma both_events_server_pages [simp]:
  "both_events_server INDEX_URL = ok_page demo_index_html"
  "both_events_server (event_url ''1'') = ok_page event1_html"
  "both_events_server (event_url ''2'') = ok_page event2_html"
  "both_events_server (speaker_url ''5-1'') = ok_page ann_html"
  by (simp_all add: both_events_server_def page_server_def INDEX_URL_def event_url_def
      speaker_url_def)

lemma no_speaker_server_pages [simp]:
  "no_speaker_server INDEX_URL = ok_page demo_index_html"
  "no_speaker_server (event_url ''1'') = ok_page event1_html"
  "no_speaker_server (speaker_url ''5-1'') =
     \<lparr>status_code = 404, reason = ''Not Found'', resp_text = []\<rparr>"
  by (simp_all add: no_speaker_server_def page_server_def INDEX_URL_def event_url_def
      speaker_url_def)

lemma demo_urls_differ [simp]:
  "event_url ''1'' \<noteq> event_url ''2''" "event_url ''2'' \<noteq> event_url ''1''"
  "event_url i \<noteq> speaker_url j" "speaker_url j \<noteq> event_url i"
  by (simp_all add: event_url_def speaker_url_def)

lemma capped_first_run:
  "build_index (accepting demo_parse) both_events_server \<lparr>max_events = Some 1\<rparr> fresh_world =
     Inr \<lparr>store = event_entries demo_parse both_events_server ''1'',
          cache = Some demo_index_html,
          out = [''adding event 1'', ''adding speaker 5-1'',
                 ''INFO: max events reached (1), stopping''],
          added = event_entries demo_parse both_events_server ''1''\<rparr>"
  by (simp add: build_index_unfold index_available_def index_page_def fresh_world_def fetch_ok_def
      fetched_def ok_page_def read_data_urls_def index_event_def http_get_def Let_def
      event_doc_eq speaker_doc_eq event_entries_def event_speakers_def speaker_entry_def
      str_int_def digit_char_def)


lemma fresh_index_both:
  "index_available both_events_server fresh_world"
  "pending both_events_server fresh_world = [''1'', ''2'']"
  by (simp_all add: index_available_def pending_def index_page_def fresh_world_def fetch_ok_def
      fetched_def ok_page_def new_ids_def read_data_urls_def)

lemma fresh_index_no_speaker:
  "index_available no_speaker_server fresh_world"
  "pending no_speaker_server fresh_world = [''1'', ''2'']"
  by (simp_all add: index_available_def pending_def index_page_def fresh_world_def fetch_ok_def
      fetched_def ok_page_def new_ids_def read_data_urls_def)

lemma both_events_ok: "event_ok both_events_server ''1''" "event_ok both_events_server ''2''"
  by (simp_all add: event_ok_def fetch_ok_def event_speakers_def fetched_def speakers_ok_def
      ok_page_def)

lemma no_speaker_not_ok: "\<not> event_ok no_speaker_server ''1''"
  by (simp add: event_ok_def fetch_ok_def event_speakers_def fetched_def speakers_ok_def
      ok_page_def)


lemma strip_prefix_Some_iff: "strip_prefix p s = Some r \<longleftrightarrow> s = p @ r"
  by (induction p s rule: strip_prefix.induct) auto

lemma strip_prefix_append: "strip_prefix p (p @ r) = Some r"
  by (simp add: strip_prefix_Some_iff)

lemma strip_prefix_extend:
  "strip_prefix p s = Some r \<Longrightarrow> strip_prefix p (s @ t) = Some (r @ t)"
  by (simp add: strip_prefix_Some_iff)

lemma match_at_SomeD:
  assumes "match_at P s = Some (g, r)"
  shows "s = lead P @ g @ trail P @ r \<and> g \<noteq> [] \<and> list_all (group_class P) g"
proof -
  from assms obtain y where y: "strip_prefix (lead P) s = Some y"
    and g: "g = takeWhile (group_class P) y" "g \<noteq> []"
    and t: "strip_prefix (trail P) (dropWhile (group_class P) y) = Some r"
    by (auto simp: match_at_def Let_def split: option.splits if_splits)
  have "y = g @ dropWhile (group_class P) y" using g by simp
  moreover have "dropWhile (group_class P) y = trail P @ r"
    using t by (simp add: strip_prefix_Some_iff)
  moreover have "s = lead P @ y" using y by (simp add: strip_prefix_Some_iff)
  moreover have "list_all (group_class P) g"
    using g by (simp add: list_all_iff) (meson set_takeWhileD)
  ultimately show ?thesis using g by simp
qed

lemma match_at_full:
  assumes "separated P" "g \<noteq> []" "list_all (group_class P) g"
  shows "match_at P (lead P @ g @ trail P @ rest) = Some (g, rest)"
proof -
  from assms(1) have t: "trail P \<noteq> []" "\<not> group_class P (hd (trail P))"
    by (simp_all add: separated_def)
  then obtain t0 ts where ts: "trail P = t0 # ts" "\<not> group_class P t0"
    by (cases "trail P") auto
  have tw: "takeWhile (group_class P) (g @ trail P @ rest) = g"
    using assms(3) ts by (simp add: list_all_iff takeWhile_append2)
  have dw: "dropWhile (group_class P) (g @ trail P @ rest) = trail P @ rest"
    using assms(3) ts by (simp add: list_all_iff dropWhile_append2)
  show ?thesis
    using assms(2) by (simp add: match_at_def strip_prefix_append tw dw)
qed

lemma strip_prefix_before:
  "c0 \<notin> set t \<Longrightarrow>
   strip_prefix t (d @ c0 # z) = map_option (\<lambda>r. r @ c0 # z) (strip_prefix t d)"
  by (induction t d rule: strip_prefix.induct) auto

lemma no_border_None:
  assumes nb: "list_all (\<lambda>j. drop j l \<noteq> take (length l - j) l) [1..<length l]"
    and x: "x \<noteq> []" and n: "strip_prefix l x = None"
  shows "strip_prefix l (x @ l @ z) = None"
proof (rule ccontr)
  assume "strip_prefix l (x @ l @ z) \<noteq> None"
  then obtain r where r: "x @ (l @ z) = l @ r" by (auto simp: strip_prefix_Some_iff)
  have "\<exists>us. x = l @ us \<and> us @ (l @ z) = r \<or> x @ us = l \<and> l @ z = us @ r"
    by (rule iffD1 [OF append_eq_append_conv2 r])
  then obtain us where "x = l @ us \<and> us @ (l @ z) = r \<or> x @ us = l \<and> l @ z = us @ r" ..
  then show False
  proof
    assume "x = l @ us \<and> us @ (l @ z) = r"
    then have "strip_prefix l x = Some us" by (simp add: strip_prefix_Some_iff)
    with n show False by simp
  next
    assume a: "x @ us = l \<and> l @ z = us @ r"
    then have l: "l = x @ us" and e: "l @ z = us @ r" by simp_all
    have us: "us \<noteq> []"
    proof
      assume "us = []"
      with l have "strip_prefix l x = Some []" by (simp add: strip_prefix_Some_iff)
      with n show False by simp
    qed
    have d: "drop (length x) l = us" using l by simp
    have "take (length us) (l @ z) = us" using e by simp
    moreover have "length us \<le> length l" using l by simp
    ultimately have "take (length us) l = us" by simp
    moreover have "length us = length l - length x" using l by simp
    ultimately have t: "take (length l - length x) l = drop (length x) l" using d by simp
    have "1 \<le> length x" using x by (cases x) simp_all
    moreover have "length x < length l" using us l by simp
    ultimately have "length x \<in> set [1..<length l]" by simp
    with nb have "drop (length x) l \<noteq> take (length l - length x) l"
      by (simp add: list_all_iff)
    with t show False by simp
  qed
qed

lemma match_at_before:
  assumes sep: "separated P" and g: "g \<noteq> []" "list_all (group_class P) g" and x: "x \<noteq> []"
  shows "match_at P (x @ lead P @ g @ trail P @ rest) =
         map_option (\<lambda>(g', r'). (g', r' @ lead P @ g @ trail P @ rest)) (match_at P x)"
proof -
  from sep obtain c0 ls where l: "lead P = c0 # ls" and c0: "\<not> group_class P c0" "c0 \<notin> set (trail P)"
    by (cases "lead P") (auto simp: separated_def)
  from sep have t: "trail P \<noteq> []" by (simp add: separated_def)
  let ?M = "lead P @ g @ trail P @ rest"
  have M: "?M = c0 # (ls @ g @ trail P @ rest)" by (simp add: l)
  show ?thesis
  proof (cases "strip_prefix (lead P) x")
    case None
    from sep have "list_all (\<lambda>j. drop j (lead P) \<noteq> take (length (lead P) - j) (lead P))
        [1..<length (lead P)]" by (simp add: separated_def)
    from no_border_None [OF this x None, of "g @ trail P @ rest"] None
    show ?thesis by (simp add: match_at_def)
  next
    case (Some y)
    then have e: "strip_prefix (lead P) (x @ ?M) = Some (y @ ?M)"
      by (rule strip_prefix_extend)
    show ?thesis
    proof (cases "list_all (group_class P) y")
      case True
      then have tw: "takeWhile (group_class P) (y @ ?M) = y"
        and dw: "dropWhile (group_class P) (y @ ?M) = ?M"
        unfolding M using c0 by (simp_all add: list_all_iff takeWhile_append2 dropWhile_append2)
      from True have twy: "takeWhile (group_class P) y = y"
        and dwy: "dropWhile (group_class P) y = []"
        by (simp_all add: list_all_iff)
      have "strip_prefix (trail P) ?M = None"
        using strip_prefix_before [OF c0(2), of "[]" "ls @ g @ trail P @ rest"] t
        by (cases "trail P") (simp_all add: l)
      moreover have "strip_prefix (trail P) [] = None" using t by (cases "trail P") simp_all
      ultimately show ?thesis
        by (simp add: match_at_def Some e tw dw twy dwy del: append_assoc)
    next
      case False
      then obtain a where a: "a \<in> set y" "\<not> group_class P a" by (auto simp: list_all_iff)
      have tw: "takeWhile (group_class P) (y @ ?M) = takeWhile (group_class P) y"
        using a by (rule takeWhile_append1 [where P = "group_class P"])
      have dw: "dropWhile (group_class P) (y @ ?M) = dropWhile (group_class P) y @ ?M"
        using a by (rule dropWhile_append1 [where P = "group_class P"])
      have sp: "strip_prefix (trail P) (dropWhile (group_class P) y @ ?M) =
          map_option (\<lambda>r. r @ ?M) (strip_prefix (trail P) (dropWhile (group_class P) y))"
        unfolding M by (rule strip_prefix_before [OF c0(2)])
      show ?thesis
        by (cases "strip_prefix (trail P) (dropWhile (group_class P) y)")
           (simp_all add: match_at_def Some e tw dw sp Let_def del: append_assoc)
    qed
  qed
qed

lemma findall_append_match:
  "separated P \<Longrightarrow> g \<noteq> [] \<Longrightarrow> list_all (group_class P) g \<Longrightarrow>
   findall P (pre @ lead P @ g @ trail P @ rest) = findall P pre @ g # findall P rest"
proof (induction P pre rule: findall.induct)
  case (1 P)
  then obtain c0 ls where l: "lead P = c0 # ls" by (cases "lead P") (auto simp: separated_def)
  from match_at_full [OF 1, of rest] show ?case by (simp add: l)
next
  case (2 P c cs)
  from match_at_before [OF "2.prems", of "c # cs" rest]
  have m: "match_at P (c # cs @ lead P @ g @ trail P @ rest) =
      map_option (\<lambda>(g', r'). (g', r' @ lead P @ g @ trail P @ rest)) (match_at P (c # cs))"
    by simp
  show ?case
  proof (cases "match_at P (c # cs)")
    case None
    with 2 m show ?thesis by simp
  next
    case (Some a)
    then obtain g' r' where a: "a = (g', r')" by (cases a)
    with 2 m Some show ?thesis by simp
  qed
qed

lemma separated_patterns: "separated EVENT_ID_P" "separated SPEAKER_ID_P"
  by (simp_all add: separated_def EVENT_ID_P_def SPEAKER_ID_P_def is_digit_def
      is_digit_or_hyphen_def upt_rec)

lemma findall_nonemptyD:
  "findall P s \<noteq> [] \<Longrightarrow>
   \<exists>pre g rest. s = pre @ lead P @ g @ trail P @ rest \<and> g \<noteq> [] \<and> list_all (group_class P) g"
proof (induction P s rule: findall.induct)
  case (1 P)
  then show ?case by simp
next
  case (2 P c cs)
  show ?case
  proof (cases "match_at P (c # cs)")
    case None
    with 2 obtain pre g rest where
      "cs = pre @ lead P @ g @ trail P @ rest" "g \<noteq> []" "list_all (group_class P) g"
      by auto
    then have "c # cs = (c # pre) @ lead P @ g @ trail P @ rest" by simp
    with \<open>g \<noteq> []\<close> \<open>list_all (group_class P) g\<close> show ?thesis by blast
  next
    case (Some a)
    then obtain g r where "match_at P (c # cs) = Some (g, r)" by (cases a) simp
    from match_at_SomeD [OF this]
    have "c # cs = [] @ lead P @ g @ trail P @ r" "g \<noteq> []" "list_all (group_class P) g"
      by simp_all
    then show ?thesis by blast
  qed
qed

lemma findall_empty_iff:
  assumes "separated P"
  shows "findall P s = [] \<longleftrightarrow>
    \<not> (\<exists>pre g rest. s = pre @ lead P @ g @ trail P @ rest \<and> g \<noteq> [] \<and>
          list_all (group_class P) g)"
proof
  assume e: "findall P s = []"
  show "\<not> (\<exists>pre g rest. s = pre @ lead P @ g @ trail P @ rest \<and> g \<noteq> [] \<and>
          list_all (group_class P) g)"
  proof
    assume "\<exists>pre g rest. s = pre @ lead P @ g @ trail P @ rest \<and> g \<noteq> [] \<and>
          list_all (group_class P) g"
    then obtain pre g rest where "s = pre @ lead P @ g @ trail P @ rest" "g \<noteq> []"
      "list_all (group_class P) g" by blast
    with findall_append_match [OF assms, of g pre rest] e show False by simp
  qed
next
  assume "\<not> (\<exists>pre g rest. s = pre @ lead P @ g @ trail P @ rest \<and> g \<noteq> [] \<and>
          list_all (group_class P) g)"
  with findall_nonemptyD [of P s] show "findall P s = []" by blast
qed

lemma event_lead: \<open>lead EVENT_ID_P = ''onClick="showDetail(''\<close>
  and event_trail: \<open>trail EVENT_ID_P = '')"''\<close>
  and event_class: "group_class EVENT_ID_P = is_digit"
  and speaker_lead: \<open>lead SPEAKER_ID_P = ''onClick="showSpeaker('' @ [CHR 0x27]\<close>
  and speaker_trail: \<open>trail SPEAKER_ID_P = CHR 0x27 # '');"''\<close>
  and speaker_class: "group_class SPEAKER_ID_P = is_digit_or_hyphen"
  by (simp_all add: EVENT_ID_P_def SPEAKER_ID_P_def)



text \<open>
  The search functions, the text and the trimming of the source against their
  descriptions: \<open>find\<close> gives the first tag of the kind in document order,
  \<open>find_next_sibling\<close> the first among the later siblings, \<open>.text\<close> the strings below
  the tag, and \<open>strip\<close> the one trimmed text.
\<close>

lemma find_append_case:
  "List.find P (xs @ ys) = (case List.find P xs of None \<Rightarrow> List.find P ys | Some x \<Rightarrow> Some x)"
  by (induction xs) simp_all

lemma tag_matches_of_kind: "tag_matches name c e = of_kind name c (e, es)"
  by (cases e; cases c) (simp_all add: of_kind_def)

lemma soup_find_landmark: "soup_find name c s = landmark name c s"
  unfolding landmark_def
proof (induction name c s rule: soup_find.induct)
  case (1 name c)
  then show ?case by simp
next
  case (2 name c n cs kids es)
  then show ?case
    by (simp add: find_append_case tag_matches_of_kind [of name c "Tag n cs kids" es]
        del: tag_matches.simps split: option.splits)
next
  case (3 name c t es)
  then show ?case by (simp add: of_kind_def)
next
  case (4 name c t es)
  then show ?case by (simp add: of_kind_def)
qed

lemma next_sibling_in_turn: "next_sibling name es = List.find (of_kind name None) (in_turn es)"
  by (induction es) (simp_all add: tag_matches_of_kind [symmetric] del: tag_matches.simps)

lemma bio_landmark_block: "bio_landmark s = bio_block s"
  by (simp add: bio_landmark_def bio_block_def soup_find_landmark find_next_sibling_def
      next_sibling_in_turn split: option.splits)

lemma get_text_order: "concat (map get_text es) = concat (map own_string (doc_order es))"
  by (induction es rule: doc_order.induct) simp_all

lemma get_text_below: "get_text e = text_below e"
  using get_text_order [of "[e]"] by (simp add: text_below_def)

lemma trimmed_strip: "trimmed t (strip t)"
  unfolding trimmed_def using strip_decomposition [of t] strip_no_outer_space [of t] by blast

lemma strip_all_space: "list_all is_space t \<Longrightarrow> strip t = []"
proof -
  assume "list_all is_space t"
  then have d: "dropWhile is_space t = []" by (induction t) simp_all
  show ?thesis unfolding strip_def d by simp
qed

lemma strip_core:
  assumes v: "v \<noteq> []" "\<not> is_space (hd v)" "\<not> is_space (last v)"
    and a: "list_all is_space a" and b: "list_all is_space b"
  shows "strip (a @ v @ b) = v"
proof -
  from v obtain x xs where x: "v = x # xs" by (cases v) auto
  have d: "dropWhile is_space (a @ v @ b) = v @ b"
    using a v(2) x by (simp add: list_all_iff dropWhile_append2)
  from v(1) obtain ys y where y: "rev v = y # ys" by (cases "rev v") auto
  then have "y = last v" using v(1) by (metis hd_rev list.sel(1))
  with v(3) have ny: "\<not> is_space y" by simp
  have "dropWhile is_space (rev b @ rev v) = dropWhile is_space (rev v)"
    using b by (intro dropWhile_append2) (simp add: list_all_iff)
  then have "dropWhile is_space (rev (v @ b)) = rev v"
    using ny y by simp
  then show ?thesis by (simp add: strip_def d)
qed

lemma trimmed_iff: "trimmed t v \<longleftrightarrow> v = strip t"
proof
  assume tr: "trimmed t v"
  then obtain a b where t: "t = a @ v @ b" and a: "list_all is_space a"
    and b: "list_all is_space b" by (auto simp: trimmed_def)
  show "v = strip t"
  proof (cases "v = []")
    case True
    with t a b have "list_all is_space t" by simp
    with True show ?thesis by (simp add: strip_all_space)
  next
    case False
    with tr have "\<not> is_space (hd v)" "\<not> is_space (last v)" by (simp_all add: trimmed_def)
    from strip_core [OF False this a b] t show ?thesis by simp
  qed
next
  assume "v = strip t"
  then show "trimmed t v" by (simp add: trimmed_strip)
qed

lemma landmark_text_field: "landmark_text x = field_text x"
  by (cases x) (simp_all add: get_text_below)

text \<open>
  The documents of a page that the tree builder accepts, and the indexing of an event whose
  pages are fetched and accepted.
\<close>

lemma event_doc_accepted:
  "parse html = Some s \<Longrightarrow> event_doc parse u html = Inr (event_page_doc u s)"
  by (simp add: event_doc_def BeautifulSoup_def event_page_doc_def event_title_eq
      event_abstract_eq event_type_eq soup_find_landmark landmark_text_field)

lemma speaker_doc_accepted:
  "parse html = Some s \<Longrightarrow> speaker_doc parse u html = Inr (speaker_page_doc u s)"
  by (simp add: speaker_doc_def BeautifulSoup_def speaker_page_doc_def speaker_name_eq
      speaker_org_eq speaker_bio_eq soup_find_landmark bio_landmark_block landmark_text_field)

lemma doc_rejected:
  "parse html = None \<Longrightarrow> event_doc parse u html = Inl ParserRejectedMarkup"
  "parse html = None \<Longrightarrow> speaker_doc parse u html = Inl ParserRejectedMarkup"
  by (simp_all add: event_doc_def speaker_doc_def BeautifulSoup_def)

lemma add_speakers_accepted:
  "list_all (\<lambda>sid. page_accepted parse http_sess (speaker_url sid)) sids \<Longrightarrow>
   add_speakers parse http_sess sids writer w =
     Inr (writer @ map (speaker_page_entry parse http_sess) sids,
          w\<lparr>out := out w @ map (\<lambda>sid. ''adding speaker '' @ sid) sids,
            added := added w @ map (speaker_page_entry parse http_sess) sids\<rparr>)"
proof (induction sids arbitrary: writer w)
  case Nil
  then show ?case by simp
next
  case (Cons sid sids)
  then have ok: "fetch_ok http_sess (speaker_url sid)"
    and rest: "list_all (\<lambda>sid. page_accepted parse http_sess (speaker_url sid)) sids"
    by (simp_all add: page_accepted_def)
  from Cons.prems obtain s where s: "parse (fetched http_sess (speaker_url sid)) = Some s"
    by (auto simp: page_accepted_def)
  then have t: "tree_of parse (fetched http_sess (speaker_url sid)) = s"
    by (simp add: tree_of_def)
  show ?case
    by (simp add: Let_def http_get_ok [OF ok] speaker_doc_accepted [where parse = parse and html = "fetched http_sess (speaker_url sid)", OF s] Cons.IH [OF rest]
        speaker_page_entry_def t)
qed

lemma index_event_accepted:
  assumes "event_accepted parse http_sess event_id"
  shows "index_event parse http_sess (event_url event_id) w =
     Inr (w\<lparr>out := out w @ map (\<lambda>sid. ''adding speaker '' @ sid) (event_speakers http_sess event_id),
            added := added w @ page_docs parse http_sess event_id,
            store := store w @ page_docs parse http_sess event_id\<rparr>)"
proof -
  from assms have ok: "fetch_ok http_sess (event_url event_id)"
    and sp: "list_all (\<lambda>sid. page_accepted parse http_sess (speaker_url sid))
               (speaker_ids (fetched http_sess (event_url event_id)))"
    by (simp_all add: event_accepted_def page_accepted_def event_speakers_def)
  from assms obtain s where s: "parse (fetched http_sess (event_url event_id)) = Some s"
    by (auto simp: event_accepted_def page_accepted_def)
  then have t: "tree_of parse (fetched http_sess (event_url event_id)) = s"
    by (simp add: tree_of_def)
  show ?thesis
    by (simp add: index_event_def http_get_ok [OF ok] event_doc_accepted [where parse = parse and html = "fetched http_sess (event_url event_id)", OF s]
        add_speakers_accepted [OF sp] page_docs_def event_speakers_def t)
qed

lemma bare_pages:
  "bare_event s \<Longrightarrow> event_page_doc u s = blank_event u"
  "bare_speaker s \<Longrightarrow> speaker_page_doc u s = blank_speaker u"
  by (simp_all add: bare_event_def bare_speaker_def event_page_doc_def speaker_page_doc_def
      blank_event_def blank_speaker_def bio_block_def)

lemma keynote_doc:
  "event_page_doc u keynote_tree =
     \<lparr>url = u, type = ''event'', title = ''Deep Learning'', description = ''Part one. Part two.'',
      subtype = ''Invited Talk'', org = [],
      content = ''event\<newline>Invited Talk\<newline>Deep Learning\<newline>Part one. Part two.''\<rparr>"
  by (simp add: event_page_doc_def keynote_tree_def landmark_def of_kind_def text_below_def
      strip_def is_space_def)

lemma lee_doc:
  "speaker_page_doc u lee_tree =
     \<lparr>url = u, type = ''speaker'', title = ''Ann Lee'', description = ''Works on vision.'',
      subtype = [], org = ''MIT'',
      content = ''speaker\<newline>Ann Lee\<newline>MIT\<newline>Works on vision.''\<rparr>"
  by (simp add: speaker_page_doc_def lee_tree_def landmark_def bio_block_def of_kind_def
      text_below_def strip_def is_space_def)

section \<open>The claims\<close>

text \<open>
  The theorems about a whole run, and those about the fields of a document that has been
  built, are stated for a tree builder that accepts every text, \<open>accepting parse\<close>. What
  the page parser does on a text that the HTML parser rejects is the subject of C9.
\<close>



text \<open>
  C2, as stated: a second run on the same index page, with nothing else changing the
  store, writes no document. It fails when the first run has stopped at its cap: with
  cap 1 and an index page that lists the events 1 and 2, the first run stores event 1 and
  its speaker, and the second run stores event 2 and its speaker.
\<close>

theorem capped_first_run_counterexample:
  "run_error (build_index (accepting demo_parse) both_events_server \<lparr>max_events = Some 1\<rparr> fresh_world) = None \<and>
   map url (store (final_world
     (build_index (accepting demo_parse) both_events_server \<lparr>max_events = Some 1\<rparr> fresh_world))) =
     [event_url ''1'', speaker_url ''5-1''] \<and>
   map url (store (final_world
     (build_index (accepting demo_parse) both_events_server \<lparr>max_events = Some 1\<rparr>
        (final_world
          (build_index (accepting demo_parse) both_events_server \<lparr>max_events = Some 1\<rparr> fresh_world))))) =
     [event_url ''1'', speaker_url ''5-1'', event_url ''2'', speaker_url ''5-1'']"
proof -
  have u: "map url (event_entries demo_parse both_events_server ''1'') =
      [event_url ''1'', speaker_url ''5-1'']"
    by (simp add: event_entries_def event_speakers_def speaker_entry_def fetched_def ok_page_def
        event_record_def speaker_record_def)
  have pg: "index_page both_events_server
      \<lparr>store = event_entries demo_parse both_events_server ''1'',
       cache = Some demo_index_html,
       out = [''adding event 1'', ''adding speaker 5-1'',
              ''INFO: max events reached (1), stopping''],
       added = event_entries demo_parse both_events_server ''1''\<rparr> = demo_index_html
     \<and> index_available both_events_server
      \<lparr>store = event_entries demo_parse both_events_server ''1'',
       cache = Some demo_index_html,
       out = [''adding event 1'', ''adding speaker 5-1'',
              ''INFO: max events reached (1), stopping''],
       added = event_entries demo_parse both_events_server ''1''\<rparr>"
    by (rule index_page_cached) simp_all
  show ?thesis
    unfolding capped_first_run
    by (simp add: final_world_def run_error_def u build_index_unfold pg
        read_data_urls_def fetch_ok_def fetched_def ok_page_def index_event_def http_get_def
        Let_def event_doc_eq speaker_doc_eq event_record_def speaker_record_def
        str_int_def digit_char_def)
qed

text \<open>
  C2, amended: when the first run has ended without an error and its cap, if it has one,
  has not cut the list of the new events, a second run on the same index page, whatever
  its own cap, writes no document: it returns normally and leaves the store, the cache
  and the list of the added documents as they are; every URL it computes is in its
  snapshot, so that it reports a skip for every event ID of the index page and nothing
  else, and no new event is left.
\<close>

theorem second_run_skips_all:
  assumes run1: "build_index (accepting parse) http_sess a1 w = Inr w1"
    and whole: "cap_prefix (max_events a1) 0 (pending http_sess w) = pending http_sess w"
  shows "build_index (accepting parse) http_sess a2 w1 =
           Inr (w1\<lparr>out := out w1 @ map (\<lambda>i. ''event '' @ i @ '' exists, skipping'')
                         (index_event_ids (index_page http_sess w))\<rparr>)
         \<and> pending http_sess w1 = []"
proof -
  let ?html = "index_page http_sess w"
  let ?ids = "index_event_ids ?html"
  have av: "index_available http_sess w"
    using run1 by (auto simp: build_index_unfold split: if_splits)
  with run1 have loop: "index_loop (accepting parse) http_sess a1 (read_data_urls (store w)) 0 ?ids
      (w\<lparr>cache := Some ?html\<rparr>) = Inr w1"
    by (simp add: build_index_unfold)
  from index_loop_Inr_all_ok [OF loop]
  have ok: "list_all (event_ok http_sess) (pending http_sess w)"
    by (simp add: pending_def [symmetric] whole)
  from index_loop_ok [of http_sess a1 0 "read_data_urls (store w)" ?ids parse
      "w\<lparr>cache := Some ?html\<rparr>"] ok loop
  have st: "store w1 = store w @ concat (map (event_entries parse http_sess) (pending http_sess w))"
    and ca: "cache w1 = Some ?html"
    by (auto simp: pending_def [symmetric] whole)
  have av1: "index_available http_sess w1"
    using av ca by (auto simp: index_available_def index_page_def split: option.splits list.splits)
  have pg1: "index_page http_sess w1 = ?html"
    using ca by (auto simp: index_page_def split: option.splits list.splits)
  have same: "w1\<lparr>cache := Some ?html\<rparr> = w1"
    using ca by (cases w1) simp
  have all: "\<forall>i \<in> set ?ids. event_url i \<in> read_data_urls (store w1)"
  proof
    fix i assume i: "i \<in> set ?ids"
    show "event_url i \<in> read_data_urls (store w1)"
    proof (cases "event_url i \<in> read_data_urls (store w)")
      case True
      then show ?thesis by (auto simp: read_data_urls_def st)
    next
      case False
      with i have "i \<in> set (pending http_sess w)" by (simp add: pending_def new_ids_def)
      from event_url_stored [OF this, of parse http_sess]
      show ?thesis by (simp add: read_data_urls_def st)
    qed
  qed
  have "build_index (accepting parse) http_sess a2 w1 =
      Inr (w1\<lparr>out := out w1 @ map (\<lambda>i. ''event '' @ i @ '' exists, skipping'') ?ids\<rparr>)"
    by (simp add: build_index_unfold av1 pg1 same index_loop_all_skipped [OF all])
  moreover have "pending http_sess w1 = []"
    using all by (simp add: pending_def pg1 new_ids_def)
  ultimately show ?thesis by simp
qed

text \<open>
  An instance of the amended C2: the first run without a cap on a network that serves
  both events, the second run with cap 1.
\<close>

theorem second_run_skips_all_witness:
  "\<exists>w1. build_index (accepting demo_parse) both_events_server \<lparr>max_events = None\<rparr> fresh_world = Inr w1 \<and>
        build_index (accepting demo_parse) both_events_server \<lparr>max_events = Some 1\<rparr> w1 =
          Inr (w1\<lparr>out := out w1 @ [''event 1 exists, skipping'', ''event 2 exists, skipping'']\<rparr>)"
proof -
  from build_index_ok [of both_events_server fresh_world "\<lparr>max_events = None\<rparr>" demo_parse]
    fresh_index_both both_events_ok
  obtain w1 where
    r: "build_index (accepting demo_parse) both_events_server \<lparr>max_events = None\<rparr> fresh_world = Inr w1"
    by auto
  have pg: "index_page both_events_server fresh_world = demo_index_html"
    by (simp add: index_page_def fresh_world_def fetched_def ok_page_def)
  from second_run_skips_all [OF r, of "\<lparr>max_events = Some 1\<rparr>"] r
  show ?thesis by (auto simp: pg)
qed

text \<open>
  C3: no run leaves two stored documents with the same \<open>url\<close>, also when a speaker
  appears at two events of the same run. The source declares the field
  \<open>url=ID(stored=True, unique=True)\<close> and skips an event whose URL is stored, but it
  adds the document of a speaker without any check. On an empty store, with an index
  page that lists the events 1 and 2, both naming the speaker 5-1, the run returns
  normally and the store holds the URL of the speaker twice.
\<close>

theorem shared_speaker_stored_twice:
  "run_error (build_index (accepting demo_parse) both_events_server \<lparr>max_events = None\<rparr> fresh_world) = None \<and>
   map url (store (final_world
     (build_index (accepting demo_parse) both_events_server \<lparr>max_events = None\<rparr> fresh_world))) =
     [event_url ''1'', speaker_url ''5-1'', event_url ''2'', speaker_url ''5-1''] \<and>
   \<not> distinct (map url (store (final_world
     (build_index (accepting demo_parse) both_events_server \<lparr>max_events = None\<rparr> fresh_world))))"
  by (simp add: build_index_unfold index_available_def index_page_def fresh_world_def fetch_ok_def
      fetched_def ok_page_def read_data_urls_def index_event_def http_get_def Let_def
      event_doc_eq speaker_doc_eq final_world_def run_error_def event_record_def
      speaker_record_def)

text \<open>
  C4, as stated: the \<open>content\<close> of a speaker document is its type, its org, its title
  and its description joined by newlines. For a speaker page with the name Ann, the
  affiliation MIT and the bio Bio the source builds the lines speaker, Ann, MIT, Bio:
  the name comes before the org.
\<close>

theorem speaker_content_order_counterexample:
  "speaker_doc (accepting (page_table [(ann_html, ann_tree)])) ''u'' ann_html =
     Inr \<lparr>url = ''u'', type = ''speaker'', title = ''Ann'', description = ''Bio'',
          subtype = [], org = ''MIT'', content = ''speaker\<newline>Ann\<newline>MIT\<newline>Bio''\<rparr>
   \<and> ''speaker\<newline>Ann\<newline>MIT\<newline>Bio'' \<noteq>
       join ''\<newline>'' [''speaker'', ''MIT'', ''Ann'', ''Bio'']"
  by (simp add: speaker_doc_eq speaker_record_def page_table_def ann_tree_def bio_landmark_def
      find_next_sibling_def strip_def is_space_def)

text \<open>
  C4, amended: for every speaker document, \<open>content\<close> is the newline-joined
  concatenation of the type \<open>"speaker"\<close>, the title (the name of the speaker), the org and
  the description (the bio), in this order.
\<close>

theorem speaker_doc_fields:
  "speaker_doc (accepting parse) u html =
     Inr \<lparr>url = u, type = ''speaker'',
          title = landmark_text (soup_find ''h3'' None (parse html)),
          description = landmark_text (bio_landmark (parse html)),
          subtype = [],
          org = landmark_text (soup_find ''h4'' None (parse html)),
          content = join ''\<newline>''
            [''speaker'',
             landmark_text (soup_find ''h3'' None (parse html)),
             landmark_text (soup_find ''h4'' None (parse html)),
             landmark_text (bio_landmark (parse html))]\<rparr>"
  by (simp add: speaker_doc_eq speaker_record_def)

text \<open>
  C5: the document built from an event URL \<open>u\<close> and the HTML of the event has \<open>url = u\<close>,
  type \<open>"event"\<close>, an empty org, as title, subtype and description the trimmed texts of
  the title, event-type and abstract landmarks, and as content the four values
  \<open>"event"\<close>, subtype, title, description joined by newlines. For a page with the title
  Talk X, the abstract About X and the type Oral the content is the four lines event,
  Oral, Talk X, About X. With a tree builder that accepts the text, building the document
  does not fail.
\<close>

theorem event_doc_fields:
  "event_doc (accepting parse) u html =
     Inr \<lparr>url = u, type = ''event'',
          title = landmark_text (soup_find ''div'' (Some ''maincardBody'') (parse html)),
          description = landmark_text (soup_find ''div'' (Some ''abstractContainer'') (parse html)),
          subtype = landmark_text
            (soup_find ''div'' (Some ''pull-right maincardHeader maincardType'') (parse html)),
          org = [],
          content = join ''\<newline>''
            [''event'',
             landmark_text
               (soup_find ''div'' (Some ''pull-right maincardHeader maincardType'') (parse html)),
             landmark_text (soup_find ''div'' (Some ''maincardBody'') (parse html)),
             landmark_text (soup_find ''div'' (Some ''abstractContainer'') (parse html))]\<rparr>
   \<and> event_doc (accepting (page_table [(talk_html, talk_tree)])) u talk_html =
     Inr \<lparr>url = u, type = ''event'', title = ''Talk X'', description = ''About X'',
          subtype = ''Oral'', org = [],
          content = ''event\<newline>Oral\<newline>Talk X\<newline>About X''\<rparr>"
  by (simp add: event_doc_eq event_record_def page_table_def talk_landmarks)

text \<open>
  C6, as stated: when a fetch returns a status that is not a success, the run aborts at
  once and every document written before the failure stays in the store. It fails for
  the documents of the event in progress: on a network that serves event 1 but not its
  speaker 5-1, the document of event 1 has been added to the writer when the fetch of
  the speaker fails; the exception leaves the \<open>with\<close> block, the writer is cancelled,
  and the store stays empty.
\<close>

theorem speaker_fetch_failure_counterexample:
  "run_error (build_index (accepting demo_parse) no_speaker_server \<lparr>max_events = None\<rparr> fresh_world) =
     Some (SystemExit (''error reading '' @ [CHR 0x27] @ speaker_url ''5-1'' @ [CHR 0x27] @
                       '': Not Found (404)'')) \<and>
   map url (added (final_world
     (build_index (accepting demo_parse) no_speaker_server \<lparr>max_events = None\<rparr> fresh_world))) =
     [event_url ''1''] \<and>
   store (final_world
     (build_index (accepting demo_parse) no_speaker_server \<lparr>max_events = None\<rparr> fresh_world)) = []"
  by (simp add: build_index_unfold index_available_def index_page_def fresh_world_def fetch_ok_def
      fetched_def ok_page_def read_data_urls_def index_event_def http_get_def Let_def
      event_doc_eq speaker_doc_eq final_world_def run_error_def event_record_def
      speaker_record_def fetch_error_message_def str_int_def digit_char_def)

text \<open>
  C6, amended: when a fetch of a run returns a status other than 200, the run aborts at
  once with the SystemExit of that fetch and without a retry. When it is the fetch of the
  index page, the state is unchanged. When it is a fetch for an event (its page or the
  page of one of its speakers), the documents of all the events indexed before it stay
  in the store, and the documents already added for the event in progress are dropped.
\<close>

theorem fetch_failure_aborts:
  "(\<not> index_available http_sess w \<longrightarrow>
      \<not> fetch_ok http_sess INDEX_URL \<and>
      build_index (accepting parse) http_sess a w = Inl (fetch_failure http_sess INDEX_URL, w)) \<and>
   (index_available http_sess w \<and>
    \<not> list_all (event_ok http_sess) (cap_prefix (max_events a) 0 (pending http_sess w)) \<longrightarrow>
      (\<exists>pre bad post w'.
         cap_prefix (max_events a) 0 (pending http_sess w) = pre @ bad # post \<and>
         list_all (event_ok http_sess) pre \<and>
         \<not> fetch_ok http_sess (failing_url http_sess bad) \<and>
         build_index (accepting parse) http_sess a w =
           Inl (fetch_failure http_sess (failing_url http_sess bad), w') \<and>
         store w' = store w @ concat (map (event_entries parse http_sess) pre) \<and>
         added w' = added w @ concat (map (event_entries parse http_sess) pre) @
                    dropped_entries parse http_sess bad))"
proof (intro conjI impI)
  assume "\<not> index_available http_sess w"
  then show "\<not> fetch_ok http_sess INDEX_URL"
    by (auto simp: index_available_def split: option.splits list.splits)
next
  assume "\<not> index_available http_sess w"
  then show "build_index (accepting parse) http_sess a w = Inl (fetch_failure http_sess INDEX_URL, w)"
    by (simp add: build_index_unfold)
next
  assume h: "index_available http_sess w \<and>
    \<not> list_all (event_ok http_sess) (cap_prefix (max_events a) 0 (pending http_sess w))"
  from first_bad_split [OF conjunct2 [OF h]] obtain pre bad post where
    sp: "cap_prefix (max_events a) 0 (pending http_sess w) = pre @ bad # post"
    and ok: "list_all (event_ok http_sess) pre" and bad: "\<not> event_ok http_sess bad"
    by blast
  from index_loop_bad [OF sp [unfolded pending_def] ok bad, of parse
      "w\<lparr>cache := Some (index_page http_sess w)\<rparr>"]
  obtain w' where
    "index_loop (accepting parse) http_sess a (read_data_urls (store w)) 0
       (index_event_ids (index_page http_sess w)) (w\<lparr>cache := Some (index_page http_sess w)\<rparr>) =
       Inl (fetch_failure http_sess (failing_url http_sess bad), w')"
    "store w' = store w @ concat (map (event_entries parse http_sess) pre)"
    "added w' = added w @ concat (map (event_entries parse http_sess) pre) @
       dropped_entries parse http_sess bad"
    by auto
  with h sp ok failing_url_not_ok [OF bad]
  show "\<exists>pre bad post w'.
         cap_prefix (max_events a) 0 (pending http_sess w) = pre @ bad # post \<and>
         list_all (event_ok http_sess) pre \<and>
         \<not> fetch_ok http_sess (failing_url http_sess bad) \<and>
         build_index (accepting parse) http_sess a w =
           Inl (fetch_failure http_sess (failing_url http_sess bad), w') \<and>
         store w' = store w @ concat (map (event_entries parse http_sess) pre) \<and>
         added w' = added w @ concat (map (event_entries parse http_sess) pre) @
                    dropped_entries parse http_sess bad"
    by (auto simp: build_index_unfold)
qed

text \<open>
  Two instances of the amended C6: the network that serves event 1 but not its speaker,
  and the network that serves nothing, on which the fetch of the index page fails.
\<close>

theorem fetch_failure_aborts_witness:
  "(\<exists>w'. build_index (accepting demo_parse) no_speaker_server \<lparr>max_events = None\<rparr> fresh_world =
          Inl (fetch_failure no_speaker_server (speaker_url ''5-1''), w') \<and>
        store w' = [] \<and> map url (added w') = [event_url ''1'']) \<and>
   build_index (accepting demo_parse) (page_server []) \<lparr>max_events = None\<rparr> fresh_world =
     Inl (fetch_failure (page_server []) INDEX_URL, fresh_world)"
proof -
  have nav: "\<not> index_available (page_server []) fresh_world"
    by (simp add: index_available_def fresh_world_def fetch_ok_def page_server_def)
  have f: "failing_url no_speaker_server ''1'' = speaker_url ''5-1''"
    and d: "map url (dropped_entries demo_parse no_speaker_server ''1'') = [event_url ''1'']"
    by (simp_all add: failing_url_def dropped_entries_def fetch_ok_def event_speakers_def
        fetched_def ok_page_def event_record_def)
  from fetch_failure_aborts [of no_speaker_server fresh_world demo_parse "\<lparr>max_events = None\<rparr>"]
    fresh_index_no_speaker no_speaker_not_ok
  obtain pre bad post w' where
    sp: "[''1'', ''2''] = pre @ bad # post" and ok: "list_all (event_ok no_speaker_server) pre"
    and b: "build_index (accepting demo_parse) no_speaker_server \<lparr>max_events = None\<rparr> fresh_world =
      Inl (fetch_failure no_speaker_server (failing_url no_speaker_server bad), w')"
    and st: "store w' = store fresh_world @
      concat (map (event_entries demo_parse no_speaker_server) pre)"
    and ad: "added w' = added fresh_world @
      concat (map (event_entries demo_parse no_speaker_server) pre) @
      dropped_entries demo_parse no_speaker_server bad"
    by auto
  from sp ok no_speaker_not_ok have "pre = []" by (cases pre) auto
  with sp have "bad = ''1''" by simp
  with b st ad \<open>pre = []\<close> f d
  have "\<exists>w'. build_index (accepting demo_parse) no_speaker_server \<lparr>max_events = None\<rparr> fresh_world =
          Inl (fetch_failure no_speaker_server (speaker_url ''5-1''), w') \<and>
        store w' = [] \<and> map url (added w') = [event_url ''1'']"
    by (auto simp: fresh_world_def)
  moreover from fetch_failure_aborts [of "page_server []" fresh_world demo_parse
      "\<lparr>max_events = None\<rparr>"] nav
  have "build_index (accepting demo_parse) (page_server []) \<lparr>max_events = None\<rparr> fresh_world =
     Inl (fetch_failure (page_server []) INDEX_URL, fresh_world)"
    by simp
  ultimately show ?thesis by simp
qed

text \<open>
  C7, as stated: the fetch client fails exactly on a status that is not a success, and on
  a success it returns the response text. The second half fails: a response with status
  200 and the text \<open>" a "\<close> gives \<open>"a"\<close>, since the source returns
  \<open>resp.text.strip()\<close>.
\<close>

theorem http_get_returns_text_counterexample:
  "status_code (page_server [(''u'', ok_page '' a '')] ''u'') = 200 \<and>
   resp_text (page_server [(''u'', ok_page '' a '')] ''u'') = '' a '' \<and>
   http_get (page_server [(''u'', ok_page '' a '')]) ''u'' = Inr ''a''"
  by (simp add: http_get_def page_server_def ok_page_def strip_def is_space_def)

text \<open>
  C7, amended: for every URL, the fetch client raises SystemExit, with the message
  \<open>error reading '<url>': <reason> (<status code>)\<close>, if and only if the status code of
  the response is not 200; on status 200 it returns the response text with the leading
  and trailing white space stripped.
\<close>

theorem http_get_result:
  "http_get http_sess u =
     (if status_code (http_sess u) = 200 then Inr (strip (resp_text (http_sess u)))
      else Inl (SystemExit (''error reading '' @ [CHR 0x27] @ u @ [CHR 0x27] @ '': '' @
             reason (http_sess u) @ '' ('' @ str_int (status_code (http_sess u)) @ '')'')))
   \<and> ((\<exists>e. http_get http_sess u = Inl e) = (status_code (http_sess u) \<noteq> 200))"
  by (simp add: http_get_def fetch_error_message_def Let_def)

text \<open>An instance of the amended C7: a URL that the network does not serve.\<close>

theorem http_get_result_witness:
  "http_get (page_server []) ''u'' =
     Inl (SystemExit (''error reading '' @ [CHR 0x27] @ ''u'' @ [CHR 0x27] @ '': Not Found (404)''))"
  using http_get_result [of "page_server []" "''u''"]
  by (simp add: page_server_def str_int_def digit_char_def)

text \<open>
  C8: \<open>extractEventIds\<close> and \<open>extractSpeakerIds\<close> return the captured IDs in the order
  in which the pattern occurs in the text from left to right, return the empty sequence
  when the text has no match of the pattern, and never fail. Both functions are total:
  the scan ends on every text. The result is empty exactly when no part of the text is
  the leading literal, a non-empty run of class characters and the trailing literal.
  And wherever the text has such a part, the result is what the scan finds before it,
  then its ID, then what the scan finds after it: so every occurrence is reported, and
  the IDs come in the order of their occurrences.
\<close>

theorem link_extractor_order:
  \<open>(index_event_ids s = [] \<longleftrightarrow>
      \<not> (\<exists>pre g rest. s = pre @ ''onClick="showDetail('' @ g @ '')"'' @ rest \<and> g \<noteq> [] \<and>
            list_all is_digit g)) \<and>
   (g \<noteq> [] \<and> list_all is_digit g \<longrightarrow>
      index_event_ids (pre @ ''onClick="showDetail('' @ g @ '')"'' @ rest) =
        index_event_ids pre @ g # index_event_ids rest) \<and>
   (speaker_ids s = [] \<longleftrightarrow>
      \<not> (\<exists>pre h rest. s = pre @ ''onClick="showSpeaker('' @ [CHR 0x27] @ h @ [CHR 0x27] @
            '');"'' @ rest \<and> h \<noteq> [] \<and> list_all is_digit_or_hyphen h)) \<and>
   (h \<noteq> [] \<and> list_all is_digit_or_hyphen h \<longrightarrow>
      speaker_ids (pre @ ''onClick="showSpeaker('' @ [CHR 0x27] @ h @ [CHR 0x27] @ '');"'' @ rest) =
        speaker_ids pre @ h # speaker_ids rest)\<close>
proof (intro conjI impI)
  show \<open>index_event_ids s = [] \<longleftrightarrow>
      \<not> (\<exists>pre g rest. s = pre @ ''onClick="showDetail('' @ g @ '')"'' @ rest \<and> g \<noteq> [] \<and>
            list_all is_digit g)\<close>
    using findall_empty_iff [OF separated_patterns(1), of s]
    unfolding index_event_ids_def event_lead event_trail event_class .
next
  assume "g \<noteq> [] \<and> list_all is_digit g"
  then show \<open>index_event_ids (pre @ ''onClick="showDetail('' @ g @ '')"'' @ rest) =
        index_event_ids pre @ g # index_event_ids rest\<close>
    using findall_append_match [OF separated_patterns(1), of g pre rest]
    unfolding index_event_ids_def event_lead event_trail event_class by simp
next
  show \<open>speaker_ids s = [] \<longleftrightarrow>
      \<not> (\<exists>pre h rest. s = pre @ ''onClick="showSpeaker('' @ [CHR 0x27] @ h @ [CHR 0x27] @
            '');"'' @ rest \<and> h \<noteq> [] \<and> list_all is_digit_or_hyphen h)\<close>
    using findall_empty_iff [OF separated_patterns(2), of s]
    unfolding speaker_ids_def speaker_lead speaker_trail speaker_class by simp
next
  assume "h \<noteq> [] \<and> list_all is_digit_or_hyphen h"
  then show \<open>speaker_ids (pre @ ''onClick="showSpeaker('' @ [CHR 0x27] @ h @ [CHR 0x27] @
        '');"'' @ rest) = speaker_ids pre @ h # speaker_ids rest\<close>
    using findall_append_match [OF separated_patterns(2), of h pre rest]
    unfolding speaker_ids_def speaker_lead speaker_trail speaker_class by simp
qed

text \<open>
  An instance of C8: an index page with \<open>onClick="showDetail(42)"\<close> once gives the ID 42, and
  an event page with \<open>onClick="showSpeaker('5-1');"\<close> once gives the ID 5-1.
\<close>

theorem link_extractor_order_witness:
  \<open>index_event_ids ''onClick="showDetail(42)"'' = [''42''] \<and>
   speaker_ids (''onClick="showSpeaker('' @ [CHR 0x27] @ ''5-1'' @ [CHR 0x27] @ '');"'') = [''5-1'']\<close>
  using link_extractor_order [of "[]" "''42''" "[]" "[]" "''5-1''"]
  by (simp add: is_digit_def is_digit_or_hyphen_def index_event_ids_def speaker_ids_def)

text \<open>
  C9, as stated: for every HTML string the page parser returns the fields of the page and
  never raises. It fails on a text that the HTML parser rejects: on the text
  \<^verbatim>\<open><![]]>\<close> bs4 raises ParserRejectedMarkup, so that neither the document of an
  event nor the document of a speaker is built from it, and an event whose page is this
  text is not indexed: the run ends with the exception and nothing is written.
\<close>

theorem rejected_markup_counterexample:
  \<open>rejected_html = ''<![]]>'' \<and>
   markup_parse rejected_html = None \<and>
   event_doc markup_parse ''u'' rejected_html = Inl ParserRejectedMarkup \<and>
   speaker_doc markup_parse ''u'' rejected_html = Inl ParserRejectedMarkup \<and>
   index_event markup_parse rejected_server (event_url ''4'') fresh_world =
     Inl (ParserRejectedMarkup, fresh_world)\<close>
  by (simp add: rejected_html_def markup_parse_def markup_table_def keynote_html_def lee_html_def
      plain_event_html_def plain_speaker_html_def event_doc_def speaker_doc_def
      BeautifulSoup_def index_event_def http_get_def rejected_server_def page_server_def
      ok_page_def strip_def is_space_def)

text \<open>
  C9, amended: for every HTML string that the HTML parser accepts, the page parser never
  raises: it returns the document of the page, in which each field is the trimmed text of
  the landmark of the field when the landmark is there and the empty string when it is
  not. The landmark is the first tag of its kind in document order, for the bio the first
  \<open>div\<close> among the siblings after the first \<open>h3\<close>; its text is made of the strings
  below it, in document order; the trimmed text is the one text that is left when white
  space, and nothing else, is cut off at both ends until none is left there. On a text that the parser rejects, building either document raises
  ParserRejectedMarkup. The documents of an event whose pages are fetched and accepted
  are written to the store whatever their fields are, and a page without any landmark
  gives the document whose fields are all empty, which is written like any other. On the
  page of an event with the type Invited Talk, the title Deep Learning and an abstract in
  two paragraphs, and on the page of a speaker with the name Ann Lee, the affiliation MIT
  and a bio, where the landmarks lie inside other tags, after tags of another kind and
  around a comment, the fields are these texts.
\<close>

theorem page_parser_total:
  "(parse html = Some s \<longrightarrow>
      event_doc parse u html = Inr (event_page_doc u s) \<and>
      speaker_doc parse u html = Inr (speaker_page_doc u s)) \<and>
   (parse bad = None \<longrightarrow>
      event_doc parse u bad = Inl ParserRejectedMarkup \<and>
      speaker_doc parse u bad = Inl ParserRejectedMarkup) \<and>
   field_text None = [] \<and>
   (trimmed (text_below (fst f)) v \<longleftrightarrow> v = field_text (Some f)) \<and>
   (event_accepted parse http_sess i \<longrightarrow>
      index_event parse http_sess (event_url i) w =
        Inr (w\<lparr>out := out w @ map (\<lambda>sid. ''adding speaker '' @ sid) (event_speakers http_sess i),
               added := added w @ page_docs parse http_sess i,
               store := store w @ page_docs parse http_sess i\<rparr>)) \<and>
   (bare_event se \<longrightarrow> event_page_doc u se = blank_event u) \<and>
   (bare_speaker ss \<longrightarrow> speaker_page_doc u ss = blank_speaker u) \<and>
   event_doc markup_parse u keynote_html =
     Inr \<lparr>url = u, type = ''event'', title = ''Deep Learning'',
          description = ''Part one. Part two.'', subtype = ''Invited Talk'', org = [],
          content = ''event\<newline>Invited Talk\<newline>Deep Learning\<newline>Part one. Part two.''\<rparr> \<and>
   speaker_doc markup_parse u lee_html =
     Inr \<lparr>url = u, type = ''speaker'', title = ''Ann Lee'', description = ''Works on vision.'',
          subtype = [], org = ''MIT'',
          content = ''speaker\<newline>Ann Lee\<newline>MIT\<newline>Works on vision.''\<rparr>"
proof -
  have k: "markup_parse keynote_html = Some keynote_tree"
    by (simp add: markup_parse_def markup_table_def)
  have l: "markup_parse lee_html = Some lee_tree"
    by (simp add: markup_parse_def markup_table_def keynote_html_def lee_html_def)
  show ?thesis
    by (simp add: event_doc_accepted speaker_doc_accepted doc_rejected trimmed_iff
        index_event_accepted bare_pages
        event_doc_accepted [where parse = markup_parse and html = keynote_html, OF k]
        speaker_doc_accepted [where parse = markup_parse and html = lee_html, OF l]
        keynote_doc lee_doc)
qed

text \<open>
  An instance of the amended C9: the page of event 3 and the page of its speaker 7-2 have
  no landmark; both documents are stored with all their fields empty. The page of the
  keynote gives its three fields, and the name of the speaker is trimmed.
\<close>

theorem page_parser_total_witness:
  "index_event markup_parse plain_server (event_url ''3'') fresh_world =
     Inr \<lparr>store = [blank_event (event_url ''3''), blank_speaker (speaker_url ''7-2'')],
          cache = None, out = [''adding speaker 7-2''],
          added = [blank_event (event_url ''3''), blank_speaker (speaker_url ''7-2'')]\<rparr> \<and>
   event_doc markup_parse ''u'' keynote_html = Inr (event_page_doc ''u'' keynote_tree) \<and>
   title (event_page_doc ''u'' keynote_tree) = ''Deep Learning'' \<and>
   speaker_doc markup_parse ''u'' rejected_html = Inl ParserRejectedMarkup \<and>
   trimmed '' Ann '' ''Ann''"
proof -
  have pages: "plain_server (event_url ''3'') = ok_page plain_event_html"
    "plain_server (speaker_url ''7-2'') = ok_page plain_speaker_html"
    by (simp_all add: plain_server_def page_server_def event_url_def speaker_url_def)
  have texts: "strip plain_event_html = plain_event_html"
    "strip plain_speaker_html = plain_speaker_html"
    by (simp_all add: plain_event_html_def plain_speaker_html_def strip_def is_space_def)
  have ids: "speaker_ids plain_event_html = [''7-2'']"
    by (simp add: plain_event_html_def speaker_ids_def SPEAKER_ID_P_def match_at_def
        is_digit_def is_digit_or_hyphen_def)
  have trees: "markup_parse plain_event_html = Some plain_event_tree"
    "markup_parse plain_speaker_html = Some plain_speaker_tree"
    "markup_parse keynote_html = Some keynote_tree"
    "markup_parse rejected_html = None"
    by (simp_all add: markup_parse_def markup_table_def keynote_html_def lee_html_def
        plain_event_html_def plain_speaker_html_def rejected_html_def)
  have acc: "event_accepted markup_parse plain_server ''3''"
    by (simp add: event_accepted_def page_accepted_def fetch_ok_def fetched_def
        event_speakers_def pages ok_page_def texts ids trees)
  have bare: "bare_event plain_event_tree" "bare_speaker plain_speaker_tree"
    by (simp_all add: bare_event_def bare_speaker_def landmark_def of_kind_def
        plain_event_tree_def plain_speaker_tree_def)
  have ann: "text_below (NavigableString '' Ann '') = '' Ann ''"
    "strip '' Ann '' = ''Ann''"
    by (simp_all add: text_below_def strip_def is_space_def)
  from page_parser_total [where parse = markup_parse and html = keynote_html
      and s = keynote_tree and bad = rejected_html and u = "''u''"
      and f = "(NavigableString '' Ann '', [])" and v = "''Ann''" and http_sess = plain_server and i = "''3''"
      and w = fresh_world and se = plain_event_tree and ss = plain_speaker_tree]
    page_parser_total [where u = "event_url ''3''" and se = plain_event_tree]
    page_parser_total [where u = "speaker_url ''7-2''" and ss = plain_speaker_tree]
    acc bare trees
  show ?thesis
    by (simp add: page_docs_def speaker_page_entry_def tree_of_def event_speakers_def
        fetched_def pages ok_page_def texts ids fresh_world_def ann keynote_doc)
qed



end
